theory Spec2Isabelle
  imports Complex_Main "HOL-Library.AList"
begin

section \<open>JavaScript numbers\<close>

text \<open>
  Every number of \<^verbatim>\<open>responsive-image-sizes.js\<close> is a JavaScript number: a 64-bit
  binary floating-point number, an infinity or NaN. A finite number is modelled by its
  exact rational value, and the two zeros are one value. A product, the number that
  \<^verbatim>\<open>parseInt\<close> or \<^verbatim>\<open>parseFloat\<close> reads and the viewport width after \<^verbatim>\<open>++\<close> are
  rounded to the nearest 64-bit number (\<open>to_double\<close> below), an infinity when the
  value is out of range. The sums of the views, the quotients by \<^verbatim>\<open>totalViews\<close> and
  the difference that the comparison function of the sort returns are kept exact: sums
  of integers below \<open>2\<^sup>5\<^sup>3\<close> are exact in the script too, a difference of two 64-bit
  numbers is zero, positive or negative as the exact one, and what is proved of the
  quotients is stated of exact quotients.
\<close>

datatype jsnum = Fin rat | PInf | NInf | NaN

text \<open>
  Rounding to 64 bits, to the nearest number with ties to the even mantissa.
  \<open>binary_exponent a\<close> is the integer \<open>e\<close> with \<open>2\<^sup>e \<le> a < 2\<^sup>e\<^sup>+\<^sup>1\<close>. The mantissa has
  53 bits, so the numbers near a positive \<open>a\<close> are the multiples \<open>m * 2\<^sup>q\<close> of \<open>2\<^sup>q\<close>
  with \<open>q = e - 52\<close>, and \<open>q = - 1074\<close> for the subnormal numbers; \<open>m\<close> is at most
  \<open>2\<^sup>5\<^sup>3\<close>, which it reaches when the rounding carries. The largest number is
  \<open>(2\<^sup>5\<^sup>3 - 1) * 2\<^sup>9\<^sup>7\<^sup>1\<close>: \<open>round_magnitude a\<close> is \<open>None\<close>, and the result an
  infinity, when \<open>q\<close> is above 971, or \<open>q\<close> is 971 and \<open>m\<close> is \<open>2\<^sup>5\<^sup>3\<close>, that is when
  \<open>m * 2\<^sup>q\<close> is \<open>2\<^sup>1\<^sup>0\<^sup>2\<^sup>4\<close> or more.
\<close>

function floor_log2 :: "int \<Rightarrow> int" where
  "floor_log2 n = (if n < 2 then 0 else 1 + floor_log2 (n div 2))"
  by pat_completeness auto
termination
  by (relation "measure nat") auto

declare floor_log2.simps [simp del]

definition power_of_two :: "int \<Rightarrow> rat" where
  "power_of_two e = (if 0 \<le> e then 2 ^ nat e else 1 / 2 ^ nat (- e))"

definition binary_exponent :: "rat \<Rightarrow> int" where
  "binary_exponent a =
     (if 1 \<le> a then floor_log2 \<lfloor>a\<rfloor>
      else let j = floor_log2 \<lfloor>1 / a\<rfloor>
           in if 1 / a = 2 ^ nat j then - j else - (j + 1))"

definition round_half_even :: "rat \<Rightarrow> int" where
  "round_half_even x =
     (let f = \<lfloor>x\<rfloor>; r = x - of_int f
      in if r < 1 / 2 then f else if 1 / 2 < r then f + 1 else if even f then f else f + 1)"

definition round_magnitude :: "rat \<Rightarrow> rat option" where
  "round_magnitude a =
     (let q = max (binary_exponent a - 52) (- 1074)
      in if 971 < q then None
         else
           let m = round_half_even (a / power_of_two q)
           in if q = 971 \<and> 2 ^ 53 \<le> m then None else Some (of_int m * power_of_two q))"

definition to_double :: "rat \<Rightarrow> jsnum" where
  "to_double x =
     (if x = 0 then Fin 0
      else case round_magnitude \<bar>x\<bar> of
             None \<Rightarrow> if x < 0 then NInf else PInf
           | Some r \<Rightarrow> Fin (if x < 0 then - r else r))"

fun js_lt :: "jsnum \<Rightarrow> jsnum \<Rightarrow> bool" where
  "js_lt (Fin x) (Fin y) = (x < y)"
| "js_lt (Fin x) PInf = True"
| "js_lt NInf (Fin y) = True"
| "js_lt NInf PInf = True"
| "js_lt _ _ = False"

definition js_le :: "jsnum \<Rightarrow> jsnum \<Rightarrow> bool" where
  "js_le a b = (js_lt a b \<or> (a = b \<and> a \<noteq> NaN))"

definition js_gt :: "jsnum \<Rightarrow> jsnum \<Rightarrow> bool" where
  "js_gt a b = js_lt b a"

definition js_ge :: "jsnum \<Rightarrow> jsnum \<Rightarrow> bool" where
  "js_ge a b = js_le b a"

fun js_neg :: "jsnum \<Rightarrow> jsnum" where
  "js_neg (Fin x) = Fin (- x)"
| "js_neg PInf = NInf"
| "js_neg NInf = PInf"
| "js_neg NaN = NaN"

definition js_add :: "jsnum \<Rightarrow> jsnum \<Rightarrow> jsnum" where
  "js_add a b =
     (case (a, b) of
        (Fin x, Fin y) \<Rightarrow> Fin (x + y)
      | (Fin x, _) \<Rightarrow> b
      | (_, Fin y) \<Rightarrow> a
      | _ \<Rightarrow> if a = b then a else NaN)"

definition js_sub :: "jsnum \<Rightarrow> jsnum \<Rightarrow> jsnum" where
  "js_sub a b = js_add a (js_neg b)"

text \<open>The sign of a number that is not NaN, and the infinity of a given sign.\<close>

fun js_sign :: "jsnum \<Rightarrow> int" where
  "js_sign (Fin x) = (if x < 0 then - 1 else if x = 0 then 0 else 1)"
| "js_sign PInf = 1"
| "js_sign NInf = - 1"
| "js_sign NaN = 0"

definition js_inf :: "int \<Rightarrow> jsnum" where
  "js_inf s = (if s < 0 then NInf else PInf)"

definition js_mul :: "jsnum \<Rightarrow> jsnum \<Rightarrow> jsnum" where
  "js_mul a b =
     (case (a, b) of
        (Fin x, Fin y) \<Rightarrow> to_double (x * y)
      | _ \<Rightarrow> if a = NaN \<or> b = NaN \<or> js_sign a = 0 \<or> js_sign b = 0 then NaN
             else js_inf (js_sign a * js_sign b))"

text \<open>The number after \<^verbatim>\<open>++\<close>.\<close>

definition js_increment :: "jsnum \<Rightarrow> jsnum" where
  "js_increment a = (case a of Fin x \<Rightarrow> to_double (x + 1) | _ \<Rightarrow> a)"

definition js_div :: "jsnum \<Rightarrow> jsnum \<Rightarrow> jsnum" where
  "js_div a b =
     (if a = NaN \<or> b = NaN then NaN
      else case b of
        Fin y \<Rightarrow>
          (if y = 0 then (if js_sign a = 0 then NaN else js_inf (js_sign a))
           else case a of
             Fin x \<Rightarrow> Fin (x / y)
           | _ \<Rightarrow> js_inf (js_sign a * (if y < 0 then - 1 else 1)))
      | _ \<Rightarrow> (case a of Fin x \<Rightarrow> Fin 0 | _ \<Rightarrow> NaN))"

fun js_ceil :: "jsnum \<Rightarrow> jsnum" where
  "js_ceil (Fin x) = Fin (of_int \<lceil>x\<rceil>)"
| "js_ceil a = a"

definition js_max :: "jsnum \<Rightarrow> jsnum \<Rightarrow> jsnum" where
  "js_max a b = (if a = NaN \<or> b = NaN then NaN else if js_lt a b then b else a)"

definition js_min :: "jsnum \<Rightarrow> jsnum \<Rightarrow> jsnum" where
  "js_min a b = (if a = NaN \<or> b = NaN then NaN else if js_lt b a then b else a)"

section \<open>Sparse arrays\<close>

text \<open>
  \<^verbatim>\<open>imageWidths\<close> and \<^verbatim>\<open>perfectWidthsTemp\<close> are arrays written at computed
  positions. A JavaScript array is an object: writing at a number stores a property
  under that number's name, whatever the number; reading an absent property gives
  \<^verbatim>\<open>undefined\<close> (here \<open>None\<close>). Only the properties whose name is an array index,
  an integer from 0 to \<open>2\<^sup>3\<^sup>2 - 2\<close>, are elements, and \<^verbatim>\<open>Array.prototype.map\<close> calls
  its function on the elements alone, in ascending index order.
\<close>

type_synonym 'a js_array = "(jsnum \<times> 'a) list"

definition js_get :: "'a js_array \<Rightarrow> jsnum \<Rightarrow> 'a option" where
  "js_get a k = map_of a k"

definition js_set :: "'a js_array \<Rightarrow> jsnum \<Rightarrow> 'a \<Rightarrow> 'a js_array" where
  "js_set a k v = AList.update k v a"

definition array_index :: "jsnum \<Rightarrow> nat option" where
  "array_index k =
     (case k of
        Fin x \<Rightarrow> (if of_int \<lfloor>x\<rfloor> = x \<and> 0 \<le> x \<and> x < 4294967295 then Some (nat \<lfloor>x\<rfloor>) else None)
      | _ \<Rightarrow> None)"

definition js_elements :: "'a js_array \<Rightarrow> (nat \<times> 'a) list" where
  "js_elements a =
     sort_key fst
       (List.map_filter (\<lambda>(k, v). map_option (\<lambda>i. (i, v)) (array_index k)) a)"

section \<open>Step 1: the contexts of the visitors\<close>

text \<open>
  \<^verbatim>\<open>contextsCsv.match(/[a-zA-Z]/)\<close> is not null when some character of the whole
  file is an ASCII letter. A character is a byte of the UTF-8 text; the bytes of a
  character outside ASCII are all above 127, so none of them is a letter.
\<close>

definition is_letter :: "char \<Rightarrow> bool" where
  "is_letter c =
     ((97 \<le> (of_char c :: nat) \<and> (of_char c :: nat) \<le> 122) \<or>
      (65 \<le> (of_char c :: nat) \<and> (of_char c :: nat) \<le> 90))"

definition csvHasHeader :: "string \<Rightarrow> bool" where
  "csvHasHeader contextsCsv = list_ex is_letter contextsCsv"

text \<open>
  \<^verbatim>\<open>parseInt(value, 10)\<close> and \<^verbatim>\<open>parseFloat(value)\<close>: leading white space is
  skipped, then the longest prefix that is a number is read and rounded to 64 bits, and
  NaN is the result when that prefix is empty. The white space is that of ECMAScript
  (\<^verbatim>\<open>WhiteSpace\<close> and \<^verbatim>\<open>LineTerminator\<close>); a character outside ASCII is met as the
  bytes of its UTF-8 form: U+00A0 in two bytes; U+1680, U+2000 to U+200A, U+2028,
  U+2029, U+202F, U+205F, U+3000 and U+FEFF (the byte order mark) in three.
\<close>

definition is_space1 :: "char \<Rightarrow> bool" where
  "is_space1 a = ((of_char a :: nat) \<in> {9, 10, 11, 12, 13, 32})"

definition is_space2 :: "char \<Rightarrow> char \<Rightarrow> bool" where
  "is_space2 a b = ((of_char a :: nat) = 194 \<and> (of_char b :: nat) = 160)"

definition is_space3 :: "char \<Rightarrow> char \<Rightarrow> char \<Rightarrow> bool" where
  "is_space3 a b c =
     (let x = (of_char a :: nat); y = (of_char b :: nat); z = (of_char c :: nat)
      in (x = 225 \<and> y = 154 \<and> z = 128)
       \<or> (x = 226 \<and> y = 128 \<and> ((128 \<le> z \<and> z \<le> 138) \<or> z = 168 \<or> z = 169 \<or> z = 175))
       \<or> (x = 226 \<and> y = 129 \<and> z = 159)
       \<or> (x = 227 \<and> y = 128 \<and> z = 128)
       \<or> (x = 239 \<and> y = 187 \<and> z = 191))"

fun skip_space :: "string \<Rightarrow> string" where
  "skip_space (a # b # c # r) =
     (if is_space1 a then skip_space (b # c # r)
      else if is_space2 a b then skip_space (c # r)
      else if is_space3 a b c then skip_space r
      else a # b # c # r)"
| "skip_space [a, b] =
     (if is_space1 a then skip_space [b] else if is_space2 a b then [] else [a, b])"
| "skip_space [a] = (if is_space1 a then [] else [a])"
| "skip_space [] = []"

definition is_digit :: "char \<Rightarrow> bool" where
  "is_digit c = (48 \<le> (of_char c :: nat) \<and> (of_char c :: nat) \<le> 57)"

definition digits_value :: "string \<Rightarrow> int" where
  "digits_value ds = foldl (\<lambda>n c. 10 * n + (of_char c - 48)) 0 ds"

fun sign_prefix :: "string \<Rightarrow> bool \<times> string" where
  "sign_prefix [] = (False, [])"
| "sign_prefix (c # r) =
     (if c = CHR ''-'' then (True, r) else if c = CHR ''+'' then (False, r) else (False, c # r))"

definition parseInt :: "string \<Rightarrow> jsnum" where
  "parseInt s =
     (case sign_prefix (skip_space s) of (neg, t) \<Rightarrow>
        let ds = takeWhile is_digit t
        in if ds = [] then NaN
           else to_double ((if neg then - 1 else 1) * of_int (digits_value ds)))"

definition exponent_part :: "string \<Rightarrow> int" where
  "exponent_part s =
     (case s of
        [] \<Rightarrow> 0
      | c # r \<Rightarrow>
          if c = CHR ''e'' \<or> c = CHR ''E'' then
            (case sign_prefix r of (neg, t) \<Rightarrow>
               let ds = takeWhile is_digit t
               in if ds = [] then 0 else (if neg then - 1 else 1) * digits_value ds)
          else 0)"

definition power_of_ten :: "int \<Rightarrow> rat" where
  "power_of_ten e = (if 0 \<le> e then 10 ^ nat e else 1 / 10 ^ nat (- e))"

definition parseFloat :: "string \<Rightarrow> jsnum" where
  "parseFloat s =
     (case sign_prefix (skip_space s) of (neg, t) \<Rightarrow>
        if take 8 t = ''Infinity'' then (if neg then NInf else PInf)
        else
          let ip = takeWhile is_digit t;
              r1 = dropWhile is_digit t;
              dot = (r1 \<noteq> [] \<and> hd r1 = CHR ''.'');
              fp = (if dot then takeWhile is_digit (tl r1) else []);
              r2 = (if dot then dropWhile is_digit (tl r1) else r1)
          in if ip = [] \<and> fp = [] then NaN
             else to_double ((if neg then - 1 else 1)
                       * (of_int (digits_value ip) + of_int (digits_value fp) / 10 ^ length fp)
                       * power_of_ten (exponent_part r2)))"

text \<open>One line of the contexts file, after the cast of its three fields.\<close>

record ctx =
  viewport :: jsnum
  density :: jsnum
  views :: jsnum

text \<open>The \<^verbatim>\<open>cast\<close> option given to the CSV parser.\<close>

definition cast :: "string \<Rightarrow> string \<Rightarrow> jsnum" where
  "cast val column = (if column = ''density'' then parseFloat val else parseInt val)"

text \<open>
  \<^verbatim>\<open>csv-parse\<close> is a library: its reading of the text into records is the
  parameter \<open>csvparse\<close>, which gives the records of three fields in the order of the
  \<^verbatim>\<open>columns\<close> option, or \<open>None\<close> when the library throws (a record that has not
  three fields). The script chooses which records are kept (\<^verbatim>\<open>from\<close>, counted from
  1) and how a field becomes a number.
\<close>

type_synonym csv_parser = "string \<Rightarrow> (string \<times> string \<times> string) list option"

definition from_record :: "string \<Rightarrow> nat" where
  "from_record contextsCsv = (if csvHasHeader contextsCsv then 2 else 1)"

definition cast_record :: "string \<times> string \<times> string \<Rightarrow> ctx" where
  "cast_record r =
     (case r of (a, b, c) \<Rightarrow>
        \<lparr>viewport = cast a ''viewport'', density = cast b ''density'', views = cast c ''views''\<rparr>)"

definition contexts :: "csv_parser \<Rightarrow> string \<Rightarrow> ctx list option" where
  "contexts csvparse contextsCsv =
     map_option (\<lambda>records. map cast_record (drop (from_record contextsCsv - 1) records))
       (csvparse contextsCsv)"

text \<open>
  The two \<^verbatim>\<open>reduce\<close> calls start from \<^verbatim>\<open>contexts[0].viewport\<close>, which throws a
  TypeError when \<^verbatim>\<open>contexts\<close> is empty.
\<close>

datatype error = CsvError | TypeError

definition contextMinViewport :: "ctx list \<Rightarrow> error + jsnum" where
  "contextMinViewport cs =
     (case cs of
        [] \<Rightarrow> Inl TypeError
      | c0 # _ \<Rightarrow> Inr (foldl (\<lambda>m p. if js_lt (viewport p) m then viewport p else m) (viewport c0) cs))"

definition contextMaxViewport :: "ctx list \<Rightarrow> error + jsnum" where
  "contextMaxViewport cs =
     (case cs of
        [] \<Rightarrow> Inl TypeError
      | c0 # _ \<Rightarrow> Inr (foldl (\<lambda>m p. if js_gt (viewport p) m then viewport p else m) (viewport c0) cs))"

text \<open>
  The options of the command line that the three steps read, and what the steps read
  of the process besides them: whether its standard output is a terminal
  (\<^verbatim>\<open>process.stdout.isTTY\<close>).
\<close>

record argv =
  minviewport :: "jsnum option"
  maxviewport :: "jsnum option"
  url :: string
  selector :: string
  variationsfile :: "string option"
  widthsnumber :: jsnum
  destfile :: "string option"
  verbose :: bool

record process = argv +
  stdout_isTTY :: bool

definition minViewport :: "process \<Rightarrow> jsnum \<Rightarrow> jsnum" where
  "minViewport args contextMin =
     (case minviewport args of None \<Rightarrow> contextMin | Some m \<Rightarrow> js_max contextMin m)"

definition maxViewport :: "process \<Rightarrow> jsnum \<Rightarrow> jsnum" where
  "maxViewport args contextMax =
     (case maxviewport args of None \<Rightarrow> contextMax | Some m \<Rightarrow> js_min contextMax m)"

section \<open>Step 2: the image width at each viewport width\<close>

text \<open>
  The browser is a collaborator. \<open>goto pg u\<close> tells whether \<^verbatim>\<open>page.goto(u)\<close> is
  fulfilled. \<open>evaluate pg w sel\<close> is what one turn of the loop reads at viewport width
  \<open>w\<close>: the width of the element that \<open>sel\<close> selects, or \<open>None\<close> when
  \<^verbatim>\<open>setViewport\<close> or \<^verbatim>\<open>evaluate\<close> is rejected (no element matches the selector, or
  the browser refuses the width).
  Launching and closing the browser are taken to succeed, and the selected element to
  be an image, whose \<^verbatim>\<open>width\<close> is a non-negative integer.
\<close>

record page =
  goto :: "string \<Rightarrow> bool"
  evaluate :: "jsnum \<Rightarrow> string \<Rightarrow> nat option"

text \<open>
  The \<^verbatim>\<open>while\<close> loop on \<^verbatim>\<open>VIEWPORT.width\<close>. It returns whether it ran to its end
  together with \<^verbatim>\<open>imageWidths\<close>, which keeps what was written before a rejection.
  With \<^verbatim>\<open>--verbose\<close> the body ends by calling \<^verbatim>\<open>process.stdout.clearLine()\<close>, a
  method that the standard output has only when it is a terminal: otherwise the call
  throws a TypeError, after the width was stored, and the loop is rejected.
  The loop has no bound of its own, so the model is a partial function, \<open>None\<close>
  when it runs forever (from \<open>2\<^sup>5\<^sup>3\<close> on, \<^verbatim>\<open>++\<close> leaves the width as it is).
\<close>

partial_function (option) viewport_loop ::
  "process \<Rightarrow> page \<Rightarrow> jsnum \<Rightarrow> jsnum \<Rightarrow> nat js_array \<Rightarrow> (bool \<times> nat js_array) option"
where
  "viewport_loop args pg w maxV imageWidths =
     (if js_le w maxV then
        (case evaluate pg w (selector args) of
           None \<Rightarrow> Some (False, imageWidths)
         | Some imageWidth \<Rightarrow>
             if verbose args \<and> \<not> stdout_isTTY args
             then Some (False, js_set imageWidths w imageWidth)
             else viewport_loop args pg (js_increment w) maxV (js_set imageWidths w imageWidth))
      else Some (True, imageWidths))"

declare viewport_loop.simps [code]

text \<open>One entry of \<^verbatim>\<open>perfectWidths\<close>.\<close>

record bucket =
  width :: nat
  percentage :: jsnum

text \<open>
  What a run prints whatever \<^verbatim>\<open>argv.verbose\<close> is, and the files it writes. The text
  of a file is kept as its parts: the rows \<^verbatim>\<open>viewportWidth;imageWidth\<close> of the
  variations file; the page, the selector and the widths of the destination file.
  A file name that is the empty string counts as no file. A write that the file
  system refuses is caught and printed by the script, with no other effect: the
  model records the write that is asked for.
\<close>

datatype message = CouldntLoadPage | Dir "bucket list"

datatype written = Variations "(nat \<times> nat) list" | SrcsetWidths string string "nat list"

record run =
  console :: "message list"
  files :: "(string \<times> written) list"

text \<open>
  \<^verbatim>\<open>page.goto(...).then(...).catch(...)\<close>: a rejection of \<^verbatim>\<open>goto\<close> or of the loop
  is caught and printed, and the promise that the script awaits is fulfilled either
  way. The variations file is written after the loop, inside \<^verbatim>\<open>then\<close>.
\<close>

definition write_if :: "string option \<Rightarrow> written \<Rightarrow> (string \<times> written) list" where
  "write_if name f = (case name of None \<Rightarrow> [] | Some n \<Rightarrow> if n = [] then [] else [(n, f)])"

definition step2 :: "process \<Rightarrow> page \<Rightarrow> jsnum \<Rightarrow> jsnum \<Rightarrow> (run \<times> nat js_array) option" where
  "step2 args pg minV maxV =
     (if goto pg (url args) then
        (case viewport_loop args pg minV maxV [] of
           None \<Rightarrow> None
         | Some (True, imageWidths) \<Rightarrow>
             Some (\<lparr>console = [],
                    files = write_if (variationsfile args) (Variations (js_elements imageWidths))\<rparr>,
                   imageWidths)
         | Some (False, imageWidths) \<Rightarrow>
             Some (\<lparr>console = [CouldntLoadPage], files = []\<rparr>, imageWidths))
      else Some (\<lparr>console = [CouldntLoadPage], files = []\<rparr>, []))"

section \<open>Step 3: the perfect widths and the widths of the srcset\<close>

text \<open>
  \<^verbatim>\<open>Math.ceil(imageWidths[value.viewport] * value.density)\<close>: a viewport that was
  never measured reads \<^verbatim>\<open>undefined\<close>, which the product turns into NaN.
\<close>

definition perfectWidth :: "nat js_array \<Rightarrow> ctx \<Rightarrow> jsnum" where
  "perfectWidth imageWidths v =
     js_ceil (js_mul (case js_get imageWidths (viewport v) of
                        None \<Rightarrow> NaN
                      | Some w \<Rightarrow> Fin (of_nat w))
                     (density v))"

text \<open>
  The function given to \<^verbatim>\<open>contexts.map\<close>, on the pair
  (\<^verbatim>\<open>perfectWidthsTemp\<close>, \<^verbatim>\<open>totalViews\<close>) that it updates.
\<close>

definition count_views ::
  "nat js_array \<Rightarrow> jsnum \<Rightarrow> jsnum \<Rightarrow> jsnum js_array \<times> jsnum \<Rightarrow> ctx \<Rightarrow> jsnum js_array \<times> jsnum"
where
  "count_views imageWidths minV maxV st v =
     (case st of (temp, totalViews) \<Rightarrow>
        if js_ge (viewport v) minV \<and> js_le (viewport v) maxV then
          let pw = perfectWidth imageWidths v;
              temp1 = (if js_get temp pw = None then js_set temp pw (Fin 0) else temp);
              temp2 = js_set temp1 pw
                        (js_add (case js_get temp1 pw of None \<Rightarrow> NaN | Some n \<Rightarrow> n) (views v))
          in (temp2, js_add totalViews (views v))
        else (temp, totalViews))"

definition perfectWidthsTemp ::
  "ctx list \<Rightarrow> nat js_array \<Rightarrow> jsnum \<Rightarrow> jsnum \<Rightarrow> jsnum js_array \<times> jsnum"
where
  "perfectWidthsTemp cs imageWidths minV maxV =
     foldl (count_views imageWidths minV maxV) ([], Fin 0) cs"

text \<open>
  \<^verbatim>\<open>perfectWidths\<close> before it is sorted: one entry for each element of
  \<^verbatim>\<open>perfectWidthsTemp\<close>, in ascending index order.
\<close>

definition percentages :: "jsnum js_array \<times> jsnum \<Rightarrow> bucket list" where
  "percentages st =
     (case st of (temp, totalViews) \<Rightarrow>
        map (\<lambda>(index, val). \<lparr>width = index, percentage = js_div val totalViews\<rparr>)
          (js_elements temp))"

text \<open>
  \<^verbatim>\<open>perfectWidths.sort((a, b) => b.percentage - a.percentage)\<close>. A comparison
  function that returns NaN counts as returning 0. The sort is the stable one
  (ECMAScript 2019): entries that compare equal keep their order.
\<close>

definition by_percentage :: "bucket \<Rightarrow> bucket \<Rightarrow> jsnum" where
  "by_percentage a b = js_sub (percentage b) (percentage a)"

fun js_insort :: "('a \<Rightarrow> 'a \<Rightarrow> jsnum) \<Rightarrow> 'a \<Rightarrow> 'a list \<Rightarrow> 'a list" where
  "js_insort cmp x [] = [x]"
| "js_insort cmp x (y # ys) =
     (if js_gt (cmp x y) (Fin 0) then y # js_insort cmp x ys else x # y # ys)"

definition js_sort :: "('a \<Rightarrow> 'a \<Rightarrow> jsnum) \<Rightarrow> 'a list \<Rightarrow> 'a list" where
  "js_sort cmp xs = foldr (js_insort cmp) xs []"

definition perfectWidths :: "ctx list \<Rightarrow> nat js_array \<Rightarrow> jsnum \<Rightarrow> jsnum \<Rightarrow> bucket list" where
  "perfectWidths cs imageWidths minV maxV =
     js_sort by_percentage
       (percentages (perfectWidthsTemp cs imageWidths minV maxV))"

text \<open>
  The selection of the widths, lines 399 to 407: the body is the comment
  \<^verbatim>\<open>// todo\<close> followed by \<^verbatim>\<open>let srcset = []\<close>. Neither \<^verbatim>\<open>perfectWidths\<close> nor
  \<^verbatim>\<open>argv.widthsnumber\<close> is read.
\<close>

definition srcset :: "bucket list \<Rightarrow> jsnum \<Rightarrow> nat list" where
  "srcset pws n = []"

section \<open>The whole run\<close>

text \<open>
  The body of the asynchronous function, after the options were checked and the
  contexts file was read: \<open>Inl\<close> is an exception that nothing catches, \<open>Inr\<close> a run
  that reaches the end, \<open>None\<close> a run that never ends.
\<close>

definition main :: "process \<Rightarrow> csv_parser \<Rightarrow> string \<Rightarrow> page \<Rightarrow> (error + run) option" where
  "main args csvparse contextsCsv pg =
     (case contexts csvparse contextsCsv of
        None \<Rightarrow> Some (Inl CsvError)
      | Some cs \<Rightarrow>
          (case (contextMinViewport cs, contextMaxViewport cs) of
             (Inr contextMin, Inr contextMax) \<Rightarrow>
               (let minV = minViewport args contextMin;
                    maxV = maxViewport args contextMax
                in case step2 args pg minV maxV of
                     None \<Rightarrow> None
                   | Some (r, imageWidths) \<Rightarrow>
                       (let pws = perfectWidths cs imageWidths minV maxV;
                            widths = srcset pws (widthsnumber args)
                        in Some (Inr \<lparr>console = console r @ [Dir pws],
                                      files = files r @
                                        write_if (destfile args)
                                          (SrcsetWidths (url args) (selector args) widths)\<rparr>)))
           | (Inl e, _) \<Rightarrow> Some (Inl e)
           | (_, Inl e) \<Rightarrow> Some (Inl e)))"

section \<open>Notions used by the properties\<close>

text \<open>The sum of a list of numbers, added from the left as \<^verbatim>\<open>+=\<close> does.\<close>

definition js_sum :: "jsnum list \<Rightarrow> jsnum" where
  "js_sum xs = foldl js_add (Fin 0) xs"

text \<open>A context is considered when its viewport passes the test of line 367.\<close>

definition considered :: "jsnum \<Rightarrow> jsnum \<Rightarrow> ctx \<Rightarrow> bool" where
  "considered minV maxV v = (js_ge (viewport v) minV \<and> js_le (viewport v) maxV)"

text \<open>
  The views of the considered contexts whose perfect width is \<open>k\<close>, and the views of
  all the considered contexts.
\<close>

definition accumulated_views :: "ctx list \<Rightarrow> nat js_array \<Rightarrow> jsnum \<Rightarrow> jsnum \<Rightarrow> jsnum \<Rightarrow> jsnum" where
  "accumulated_views cs imageWidths minV maxV k =
     js_sum (map views [c \<leftarrow> cs. considered minV maxV c \<and> perfectWidth imageWidths c = k])"

definition considered_views :: "ctx list \<Rightarrow> jsnum \<Rightarrow> jsnum \<Rightarrow> jsnum" where
  "considered_views cs minV maxV = js_sum (map views (filter (considered minV maxV) cs))"


text \<open>The options of the runs that the examples below evaluate.\<close>

definition example_args :: process where
  "example_args =
     \<lparr>minviewport = None, maxviewport = Some (Fin 321), url = ''https://example.com/'',
      selector = ''img'', variationsfile = None, widthsnumber = Fin 5,
      destfile = Some ''srcset-widths.txt'', verbose = False, stdout_isTTY = True\<rparr>"

section \<open>Rounding to 64 bits\<close>

text \<open>
  What the definitions of the rounding compute: the binary exponent brackets the
  number; the rounded magnitude is \<open>m * 2\<^sup>q\<close> with a mantissa \<open>m\<close> of at most 53 bits
  and an exponent \<open>q\<close> of the format, at most half a unit of the last place away; an
  integer up to \<open>2\<^sup>5\<^sup>3\<close> is kept as it is; and from \<open>2\<^sup>1\<^sup>0\<^sup>2\<^sup>4\<close> on the result is an
  infinity.
\<close>

lemma floor_log2_nonneg: "0 \<le> floor_log2 n"
  by (induction n rule: floor_log2.induct) (subst floor_log2.simps, simp)

lemma floor_log2_bounds:
  "1 \<le> n \<Longrightarrow> 2 ^ nat (floor_log2 n) \<le> n \<and> n < 2 * 2 ^ nat (floor_log2 n)"
proof (induction n rule: floor_log2.induct)
  case (1 n)
  show ?case
  proof (cases "n < 2")
    case True
    with "1.prems" have "n = 1" by simp
    then show ?thesis by (subst (1 2) floor_log2.simps) simp
  next
    case False
    then have h: "1 \<le> n div 2" by simp
    have ih: "2 ^ nat (floor_log2 (n div 2)) \<le> n div 2"
      "n div 2 < 2 * 2 ^ nat (floor_log2 (n div 2))"
      using "1.IH" [OF False h] by simp_all
    have e: "nat (floor_log2 n) = Suc (nat (floor_log2 (n div 2)))"
      using False floor_log2_nonneg [of "n div 2"]
      by (subst floor_log2.simps) (simp add: nat_add_distrib)
    show ?thesis unfolding e using ih by (simp; linarith)
  qed
qed

lemma round_half_even_of_int: "round_half_even (of_int k) = k"
  by (simp add: round_half_even_def)

lemma floor_log2_le:
  assumes "1 \<le> n" "n \<le> 2 ^ k"
  shows "floor_log2 n \<le> int k"
proof (rule ccontr)
  assume "\<not> floor_log2 n \<le> int k"
  then have "Suc k \<le> nat (floor_log2 n)" by simp
  then have "(2::int) ^ Suc k \<le> 2 ^ nat (floor_log2 n)"
    by (rule power_increasing) simp
  also have "\<dots> \<le> n" using floor_log2_bounds [OF assms(1)] by simp
  finally have "2 * 2 ^ k \<le> n" by simp
  moreover have "0 < (2::int) ^ k" by simp
  ultimately show False using assms(2) by linarith
qed

lemma floor_log2_ge:
  assumes "2 ^ k \<le> n"
  shows "int k \<le> floor_log2 n"
proof (rule ccontr)
  assume "\<not> int k \<le> floor_log2 n"
  then have "Suc (nat (floor_log2 n)) \<le> k"
    using floor_log2_nonneg [of n] by simp
  then have "(2::int) ^ Suc (nat (floor_log2 n)) \<le> 2 ^ k"
    by (rule power_increasing) simp
  moreover have "1 \<le> n" using assms by (smt (verit) one_le_power)
  ultimately show False using floor_log2_bounds [of n] assms by simp
qed

lemma round_magnitude_of_int:
  assumes "0 < n" "n \<le> 2 ^ 53"
  shows "round_magnitude (of_int n) = Some (of_int n)"
proof -
  define e where "e = floor_log2 n"
  have n1: "1 \<le> n" using assms(1) by simp
  have e0: "0 \<le> e" unfolding e_def by (rule floor_log2_nonneg)
  have e53: "e \<le> 53" unfolding e_def using floor_log2_le [OF n1 assms(2)] by simp
  have be: "binary_exponent (of_int n) = e"
    using n1 by (simp add: binary_exponent_def e_def)
  have q: "max (e - 52) (- 1074) = e - 52" using e0 by simp
  have m: "of_int (round_half_even (of_int n / power_of_two (e - 52))) * power_of_two (e - 52)
             = (of_int n :: rat)"
  proof (cases "e \<le> 52")
    case True
    then have p: "power_of_two (e - 52) = 1 / 2 ^ nat (52 - e)"
      by (cases "e = 52") (simp_all add: power_of_two_def)
    have "of_int n / power_of_two (e - 52) = (of_int (n * 2 ^ nat (52 - e)) :: rat)"
      unfolding p by simp
    then have "round_half_even (of_int n / power_of_two (e - 52)) = n * 2 ^ nat (52 - e)"
      by (simp only: round_half_even_of_int)
    then show ?thesis
      unfolding p by simp
  next
    case False
    with e53 have e: "e = 53" by simp
    have "2 ^ 53 \<le> n"
      using floor_log2_bounds [OF n1] e unfolding e_def by simp
    with assms(2) have n: "n = 2 ^ 53" by simp
    have "(of_int n :: rat) / power_of_two (e - 52) = of_int (2 ^ 52)"
      unfolding e n by (simp add: power_of_two_def)
    then have "round_half_even (of_int n / power_of_two (e - 52)) = 2 ^ 52"
      by (simp only: round_half_even_of_int)
    then show ?thesis
      unfolding e n by (simp add: power_of_two_def)
  qed
  show ?thesis
    unfolding round_magnitude_def be q Let_def using e53 m by simp
qed

lemma to_double_minus: "to_double (- x) = js_neg (to_double x)"
proof -
  consider "x = 0" | "x < 0" | "0 < x" by linarith
  then show ?thesis
  proof cases
    case 1
    then show ?thesis by (simp add: to_double_def)
  next
    case 2
    then show ?thesis
      unfolding to_double_def abs_minus_cancel
      by (cases "round_magnitude \<bar>x\<bar>") simp_all
  next
    case 3
    then show ?thesis
      unfolding to_double_def abs_minus_cancel
      by (cases "round_magnitude \<bar>x\<bar>") simp_all
  qed
qed

lemma to_double_of_int:
  assumes "\<bar>n\<bar> \<le> 2 ^ 53"
  shows "to_double (of_int n) = Fin (of_int n)"
proof -
  consider "n = 0" | "0 < n" | "n < 0" by linarith
  then show ?thesis
  proof cases
    case 1
    then show ?thesis by (simp add: to_double_def)
  next
    case 2
    with assms show ?thesis by (simp add: to_double_def round_magnitude_of_int)
  next
    case 3
    with assms have "round_magnitude (of_int (- n)) = Some (of_int (- n))"
      by (intro round_magnitude_of_int) simp_all
    moreover have "\<bar>of_int n :: rat\<bar> = of_int (- n)" using 3 by simp
    ultimately show ?thesis
      unfolding to_double_def using 3 by simp
  qed
qed

lemma to_double_overflow:
  assumes "2 ^ 1024 \<le> \<bar>x\<bar>"
  shows "to_double x = (if x < 0 then NInf else PInf)"
proof -
  have "(2::rat) ^ 1024 = of_int (2 ^ 1024)" by simp
  then have "2 ^ 1024 \<le> \<lfloor>\<bar>x\<bar>\<rfloor>"
    using assms by (simp only: le_floor_iff)
  then have "int 1024 \<le> floor_log2 \<lfloor>\<bar>x\<bar>\<rfloor>"
    by (rule floor_log2_ge)
  moreover have "1 \<le> \<bar>x\<bar>"
    using assms by (smt (verit) one_le_power order_trans one_le_numeral)
  ultimately have "1024 \<le> binary_exponent \<bar>x\<bar>"
    by (simp add: binary_exponent_def)
  then have "round_magnitude \<bar>x\<bar> = None"
    by (simp add: round_magnitude_def Let_def)
  moreover have "x \<noteq> 0" using assms by auto
  ultimately show ?thesis
    by (simp add: to_double_def)
qed

lemma power_of_two_pos: "0 < power_of_two e"
  by (simp add: power_of_two_def)

lemma power_of_two_Suc: "power_of_two (e + 1) = 2 * power_of_two e"
proof (cases "0 \<le> e")
  case True
  then show ?thesis by (simp add: power_of_two_def nat_add_distrib)
next
  case False
  then have "nat (- e) = Suc (nat (- (e + 1)))" by simp
  then show ?thesis using False by (simp add: power_of_two_def)
qed

lemma binary_exponent_bounds:
  assumes "0 < a"
  shows "power_of_two (binary_exponent a) \<le> a \<and> a < 2 * power_of_two (binary_exponent a)"
proof (cases "1 \<le> a")
  case True
  define n where "n = \<lfloor>a\<rfloor>"
  have n1: "1 \<le> n" using True by (simp add: n_def)
  have b: "2 ^ nat (floor_log2 n) \<le> n" "n < 2 * 2 ^ nat (floor_log2 n)"
    using floor_log2_bounds [OF n1] by simp_all
  have "(of_int (2 ^ nat (floor_log2 n)) :: rat) \<le> of_int n"
    using b(1) by (simp only: of_int_le_iff)
  also have "\<dots> \<le> a" by (simp add: n_def)
  finally have lo: "2 ^ nat (floor_log2 n) \<le> a" by simp
  have "n + 1 \<le> 2 * 2 ^ nat (floor_log2 n)" using b(2) by simp
  then have "(of_int (n + 1) :: rat) \<le> of_int (2 * 2 ^ nat (floor_log2 n))"
    by (simp only: of_int_le_iff)
  moreover have "a < of_int (n + 1)" using floor_correct [of a] by (simp add: n_def)
  ultimately have hi: "a < 2 * 2 ^ nat (floor_log2 n)" by simp
  show ?thesis
    using True lo hi floor_log2_nonneg [of n]
    by (simp add: binary_exponent_def power_of_two_def n_def)
next
  case False
  define b where "b = 1 / a"
  define n where "n = \<lfloor>b\<rfloor>"
  define j where "j = floor_log2 n"
  have b1: "1 < b" using False assms by (simp add: b_def)
  have a: "a = 1 / b" by (simp add: b_def)
  have n1: "1 \<le> n" using b1 by (simp add: n_def)
  have j0: "0 \<le> j" unfolding j_def by (rule floor_log2_nonneg)
  have bd: "2 ^ nat j \<le> n" "n < 2 * 2 ^ nat j"
    using floor_log2_bounds [OF n1] by (simp_all add: j_def)
  have "(of_int (2 ^ nat j) :: rat) \<le> of_int n"
    using bd(1) by (simp only: of_int_le_iff)
  also have "\<dots> \<le> b" by (simp add: n_def)
  finally have lo: "2 ^ nat j \<le> b" by simp
  have "n + 1 \<le> 2 * 2 ^ nat j" using bd(2) by simp
  then have "(of_int (n + 1) :: rat) \<le> of_int (2 * 2 ^ nat j)"
    by (simp only: of_int_le_iff)
  moreover have "b < of_int (n + 1)" using floor_correct [of b] by (simp add: n_def)
  ultimately have hi: "b < 2 * 2 ^ nat j" by simp
  have be: "binary_exponent a = (if b = 2 ^ nat j then - j else - (j + 1))"
    using False by (simp add: binary_exponent_def b_def n_def j_def Let_def)
  show ?thesis
  proof (cases "b = 2 ^ nat j")
    case True
    have "power_of_two (- j) = 1 / 2 ^ nat j"
      using j0 by (cases "j = 0") (simp_all add: power_of_two_def)
    moreover have "binary_exponent a = - j" using be True by simp
    ultimately have "power_of_two (binary_exponent a) = a"
      using True a by simp
    then show ?thesis using assms by simp
  next
    case ne: False
    have p: "power_of_two (- (j + 1)) = 1 / (2 * 2 ^ nat j)"
      using j0 by (simp add: power_of_two_def nat_add_distrib)
    have "1 / (2 * 2 ^ nat j) < 1 / b"
      using hi b1 by (simp add: frac_less2)
    moreover have "1 / b < 1 / 2 ^ nat j"
      using lo ne by (simp add: frac_less2)
    moreover have "binary_exponent a = - (j + 1)" using be ne by simp
    ultimately show ?thesis
      using a p by simp
  qed
qed

lemma round_half_even_nearest:
  "\<bar>of_int (round_half_even x) - x\<bar> \<le> 1 / 2"
proof -
  define r where "r = x - of_int \<lfloor>x\<rfloor>"
  have r: "0 \<le> r" "r < 1"
    using floor_correct [of x] by (simp_all add: r_def)
  have x: "x = of_int \<lfloor>x\<rfloor> + r" by (simp add: r_def)
  have e: "round_half_even x =
             (if r < 1 / 2 then \<lfloor>x\<rfloor> else if 1 / 2 < r then \<lfloor>x\<rfloor> + 1
              else if even \<lfloor>x\<rfloor> then \<lfloor>x\<rfloor> else \<lfloor>x\<rfloor> + 1)"
    by (simp add: round_half_even_def r_def Let_def)
  have "\<bar>of_int (round_half_even x) - (of_int \<lfloor>x\<rfloor> + r)\<bar> \<le> 1 / 2"
    unfolding e using r by auto
  then show ?thesis using x by simp
qed

lemma power_of_two_powi: "power_of_two e = 2 powi e"
  by (simp add: power_of_two_def power_int_def power_inverse inverse_eq_divide power_one_over)

lemma power_of_two_add: "power_of_two (d + e) = power_of_two d * power_of_two e"
  unfolding power_of_two_powi by (simp add: power_int_add)

lemma power_of_two_mono: "d \<le> e \<Longrightarrow> power_of_two d \<le> power_of_two e"
  unfolding power_of_two_powi by (rule power_int_increasing) simp_all

lemma round_half_even_nonneg: "0 \<le> x \<Longrightarrow> 0 \<le> round_half_even x"
  by (simp add: round_half_even_def Let_def)

lemma round_magnitude_double:
  assumes "0 < a" and "round_magnitude a = Some r"
  shows "\<exists>m q. r = of_int m * power_of_two q \<and> 0 \<le> m \<and> m \<le> 2 ^ 53
           \<and> - 1074 \<le> q \<and> q \<le> 971 \<and> (m < 2 ^ 53 \<or> q < 971)
           \<and> \<bar>r - a\<bar> \<le> power_of_two q / 2"
proof -
  define e where "e = binary_exponent a"
  define q where "q = max (e - 52) (- 1074)"
  define m where "m = round_half_even (a / power_of_two q)"
  have rm: "round_magnitude a =
              (if 971 < q then None
               else if q = 971 \<and> 2 ^ 53 \<le> m then None
               else Some (of_int m * power_of_two q))"
    unfolding round_magnitude_def Let_def m_def q_def e_def ..
  have q971: "q \<le> 971" and top: "m < 2 ^ 53 \<or> q < 971" and r: "r = of_int m * power_of_two q"
    using assms(2) unfolding rm by (auto split: if_splits)
  have p: "0 < power_of_two q" by (rule power_of_two_pos)
  have m0: "0 \<le> m"
    unfolding m_def using assms(1) p by (intro round_half_even_nonneg) simp
  have "a < 2 * power_of_two e"
    using binary_exponent_bounds [OF assms(1)] by (simp add: e_def)
  also have "2 * power_of_two e = 2 ^ 53 * power_of_two (e - 52)"
  proof -
    have "2 * power_of_two e = power_of_two (53 + (e - 52))"
      using power_of_two_Suc [of e] by (simp add: add.commute)
    also have "\<dots> = power_of_two 53 * power_of_two (e - 52)"
      by (rule power_of_two_add)
    also have "power_of_two 53 = 2 ^ 53"
      by (simp add: power_of_two_def)
    finally show ?thesis .
  qed
  also have "\<dots> \<le> 2 ^ 53 * power_of_two q"
    using power_of_two_mono [of "e - 52" q] by (simp add: q_def)
  finally have "a / power_of_two q < 2 ^ 53"
    using p by (simp add: pos_divide_less_eq)
  moreover have near: "\<bar>of_int m - a / power_of_two q\<bar> \<le> 1 / 2"
    unfolding m_def by (rule round_half_even_nearest)
  ultimately have "(of_int m :: rat) < 2 ^ 53 + 1" by linarith
  also have "(2 ^ 53 + 1 :: rat) = of_int (2 ^ 53 + 1)" by simp
  finally have "m < 2 ^ 53 + 1" by (simp only: of_int_less_iff)
  then have m53: "m \<le> 2 ^ 53" by simp
  have "r - a = (of_int m - a / power_of_two q) * power_of_two q"
    using p unfolding r by (simp add: left_diff_distrib)
  then have "\<bar>r - a\<bar> = \<bar>of_int m - a / power_of_two q\<bar> * \<bar>power_of_two q\<bar>"
    by (simp only: abs_mult)
  also have "\<bar>power_of_two q\<bar> = power_of_two q"
    using p by simp
  finally have "\<bar>r - a\<bar> = \<bar>of_int m - a / power_of_two q\<bar> * power_of_two q" .
  also have "\<dots> \<le> 1 / 2 * power_of_two q"
    using near p by (intro mult_right_mono) simp_all
  finally have err: "\<bar>r - a\<bar> \<le> power_of_two q / 2" by simp
  have "- 1074 \<le> q" by (simp add: q_def)
  with r m0 m53 q971 top err show ?thesis by blast
qed

lemma js_increment_of_int:
  assumes "- (2 ^ 53) \<le> w" and "w < 2 ^ 53"
  shows "js_increment (Fin (of_int w)) = Fin (of_int (w + 1))"
  using assms to_double_of_int [of "w + 1"] by (simp add: js_increment_def)

section \<open>Numbers read from the contexts file\<close>

lemma parseFloat_of_decimal:
  "parseFloat ''1.1'' = Fin (2476979795053773 / 2251799813685248)"
  by code_simp

lemma product_of_width_and_density:
  "js_mul (Fin 100) (parseFloat ''1.1'') = Fin (7740561859543041 / 70368744177664)
   \<and> js_ceil (js_mul (Fin 100) (parseFloat ''1.1'')) = Fin 111
   \<and> js_ceil (js_mul (Fin 10) (parseFloat ''1.1'')) = Fin 11"
  by code_simp

lemma parseInt_above_mantissa: "parseInt ''9007199254740993'' = Fin 9007199254740992"
  by code_simp

lemma parseInt_after_byte_order_mark:
  "parseInt ([CHR 0xEF, CHR 0xBB, CHR 0xBF] @ ''320'') = Fin 320"
  by code_simp

lemma parseInt_after_no_break_space:
  "parseInt ([CHR 0xC2, CHR 0xA0] @ ''320'') = Fin 320"
  by code_simp

lemma parseFloat_out_of_range: "parseFloat ''1e400'' = PInf"
proof -
  have "parseFloat ''1e400'' = to_double (10 ^ 400)"
    by (simp add: parseFloat_def is_space1_def is_space2_def is_space3_def is_digit_def
        digits_value_def exponent_part_def power_of_ten_def Let_def)
  moreover have "(2::rat) ^ 1024 \<le> \<bar>10 ^ 400\<bar>"
    by simp
  ultimately show ?thesis
    using to_double_overflow [of "10 ^ 400"] by simp
qed

section \<open>Sums of numbers\<close>

lemma js_add_commute: "js_add a b = js_add b a"
  by (cases a; cases b) (simp_all add: js_add_def)

lemma js_add_assoc: "js_add (js_add a b) c = js_add a (js_add b c)"
  by (cases a; cases b; cases c) (simp_all add: js_add_def)

lemma js_add_zero [simp]: "js_add (Fin 0) a = a" "js_add a (Fin 0) = a"
  by (cases a; simp add: js_add_def)+

lemma js_add_Fin [simp]: "js_add (Fin x) (Fin y) = Fin (x + y)"
  by (simp add: js_add_def)

lemma foldl_js_add: "foldl js_add a xs = js_add a (foldl js_add (Fin 0) xs)"
proof (induction xs arbitrary: a)
  case Nil
  show ?case by simp
next
  case (Cons x xs)
  have "foldl js_add a (x # xs) = js_add (js_add a x) (foldl js_add (Fin 0) xs)"
    using Cons.IH [of "js_add a x"] by simp
  also have "\<dots> = js_add a (js_add x (foldl js_add (Fin 0) xs))"
    by (rule js_add_assoc)
  also have "js_add x (foldl js_add (Fin 0) xs) = foldl js_add (Fin 0) (x # xs)"
    using Cons.IH [of x] by simp
  finally show ?case .
qed

lemma js_sum_Nil [simp]: "js_sum [] = Fin 0"
  by (simp add: js_sum_def)

lemma js_sum_Cons [simp]: "js_sum (x # xs) = js_add x (js_sum xs)"
  unfolding js_sum_def using foldl_js_add [of x xs] by simp

lemma js_sum_append [simp]: "js_sum (xs @ ys) = js_add (js_sum xs) (js_sum ys)"
  by (induction xs) (simp_all add: js_add_assoc)

section \<open>The array of the perfect widths\<close>

lemma count_views_eq:
  "count_views iw lo hi (temp, tv) v =
     (if considered lo hi v then
        (AList.update (perfectWidth iw v)
           (js_add (case map_of temp (perfectWidth iw v) of None \<Rightarrow> Fin 0 | Some n \<Rightarrow> n) (views v))
           temp,
         js_add tv (views v))
      else (temp, tv))"
  by (simp add: count_views_def considered_def js_get_def js_set_def Let_def AList.update_conv'
      split: option.split)

lemma perfectWidthsTemp_snoc:
  "perfectWidthsTemp (cs @ [v]) iw lo hi =
     count_views iw lo hi (perfectWidthsTemp cs iw lo hi) v"
  by (simp add: perfectWidthsTemp_def)

lemma totalViews_eq:
  "snd (perfectWidthsTemp cs iw lo hi) = js_sum (map views (filter (considered lo hi) cs))"
proof (induction cs rule: rev_induct)
  case Nil
  show ?case by (simp add: perfectWidthsTemp_def)
next
  case (snoc v cs)
  obtain temp tv where st: "perfectWidthsTemp cs iw lo hi = (temp, tv)"
    by (cases "perfectWidthsTemp cs iw lo hi")
  with snoc show ?case
    by (simp add: perfectWidthsTemp_snoc count_views_eq js_add_commute)
qed

lemma distinct_perfectWidthsTemp:
  "distinct (map fst (fst (perfectWidthsTemp cs iw lo hi)))"
proof (induction cs rule: rev_induct)
  case Nil
  show ?case by (simp add: perfectWidthsTemp_def)
next
  case (snoc v cs)
  obtain temp tv where st: "perfectWidthsTemp cs iw lo hi = (temp, tv)"
    by (cases "perfectWidthsTemp cs iw lo hi")
  with snoc show ?case
    by (simp add: perfectWidthsTemp_snoc count_views_eq distinct_update)
qed

lemma temp_lookup:
  "map_of (fst (perfectWidthsTemp cs iw lo hi)) k =
     (if k \<in> perfectWidth iw ` set (filter (considered lo hi) cs)
      then Some (js_sum (map views [c \<leftarrow> filter (considered lo hi) cs. perfectWidth iw c = k]))
      else None)"
proof (induction cs rule: rev_induct)
  case Nil
  show ?case by (simp add: perfectWidthsTemp_def)
next
  case (snoc v cs)
  obtain temp tv where st: "perfectWidthsTemp cs iw lo hi = (temp, tv)"
    by (cases "perfectWidthsTemp cs iw lo hi")
  show ?case
  proof (cases "considered lo hi v")
    case False
    with snoc st show ?thesis
      by (simp add: perfectWidthsTemp_snoc count_views_eq)
  next
    case True
    show ?thesis
    proof (cases "k = perfectWidth iw v")
      case False
      with True snoc st show ?thesis
        by (simp add: perfectWidthsTemp_snoc count_views_eq update_conv')
    next
      case k: True
      have "map_of (fst (perfectWidthsTemp (cs @ [v]) iw lo hi)) k =
              Some (js_add (case map_of temp k of None \<Rightarrow> Fin 0 | Some n \<Rightarrow> n) (views v))"
        using True st k by (simp add: perfectWidthsTemp_snoc count_views_eq update_conv')
      moreover have "(case map_of temp k of None \<Rightarrow> Fin 0 | Some n \<Rightarrow> n) =
              js_sum (map views [c \<leftarrow> filter (considered lo hi) cs. perfectWidth iw c = k])"
      proof (cases "k \<in> perfectWidth iw ` set (filter (considered lo hi) cs)")
        case True
        with snoc st show ?thesis by simp
      next
        case False
        then have "[c \<leftarrow> filter (considered lo hi) cs. perfectWidth iw c = k] = []"
          by (auto simp: filter_empty_conv)
        with False snoc st show ?thesis by simp
      qed
      ultimately show ?thesis using True k by (simp add: js_add_commute)
    qed
  qed
qed

lemma array_index_Some_iff:
  "array_index k = Some i \<longleftrightarrow> k = Fin (of_nat i) \<and> i < 4294967295"
proof (cases k)
  case (Fin x)
  show ?thesis
  proof
    assume "array_index k = Some i"
    with Fin have *: "of_int \<lfloor>x\<rfloor> = x" "0 \<le> x" "x < 4294967295" "i = nat \<lfloor>x\<rfloor>"
      by (auto simp: array_index_def split: if_splits)
    from * have "(of_nat i :: rat) = x" by (metis of_nat_nat zero_le_floor)
    moreover from this * have "i < 4294967295"
      by (metis of_nat_less_iff of_nat_numeral)
    ultimately show "k = Fin (of_nat i) \<and> i < 4294967295" using Fin by simp
  next
    assume "k = Fin (of_nat i) \<and> i < 4294967295"
    then show "array_index k = Some i"
      by (simp add: array_index_def)
  qed
qed (simp_all add: array_index_def)

lemma set_js_elements:
  assumes "distinct (map fst a)"
  shows "set (js_elements a) = {(i, v). i < 4294967295 \<and> map_of a (Fin (of_nat i)) = Some v}"
proof -
  have "set (js_elements a) = {(i, v). \<exists>k. (k, v) \<in> set a \<and> array_index k = Some i}"
    by (force simp: js_elements_def List.map_filter_def)
  also have "\<dots> = {(i, v). i < 4294967295 \<and> (Fin (of_nat i), v) \<in> set a}"
    by (auto simp: array_index_Some_iff)
  also have "\<dots> = {(i, v). i < 4294967295 \<and> map_of a (Fin (of_nat i)) = Some v}"
    using assms by auto
  finally show ?thesis .
qed

lemma sorted_js_elements: "sorted (map fst (js_elements a))"
  by (simp add: js_elements_def)

lemma set_js_insort: "set (js_insort cmp x xs) = insert x (set xs)"
  by (induction xs) auto

lemma set_js_sort: "set (js_sort cmp xs) = set xs"
  by (induction xs) (simp_all add: js_sort_def set_js_insort)

lemma filter_considered_and:
  "[c \<leftarrow> filter (considered lo hi) cs. perfectWidth iw c = k] =
   [c \<leftarrow> cs. considered lo hi c \<and> perfectWidth iw c = k]"
  by (simp add: conj_commute)

lemma set_percentages:
  "set (percentages (perfectWidthsTemp cs iw lo hi)) =
     {\<lparr>width = i, percentage = js_div (accumulated_views cs iw lo hi (Fin (of_nat i)))
                                       (considered_views cs lo hi)\<rparr> | i.
        i < 4294967295 \<and> (\<exists>c\<in>set cs. considered lo hi c \<and> perfectWidth iw c = Fin (of_nat i))}"
proof -
  obtain temp tv where st: "perfectWidthsTemp cs iw lo hi = (temp, tv)"
    by (cases "perfectWidthsTemp cs iw lo hi")
  have tv: "tv = considered_views cs lo hi"
    using totalViews_eq [of cs iw lo hi] st by (simp add: considered_views_def)
  have d: "distinct (map fst temp)"
    using distinct_perfectWidthsTemp [of cs iw lo hi] st by simp
  have lk: "map_of temp k =
     (if \<exists>c\<in>set cs. considered lo hi c \<and> perfectWidth iw c = k
      then Some (accumulated_views cs iw lo hi k) else None)" for k
    using temp_lookup [of cs iw lo hi k] st
    by (auto simp: accumulated_views_def filter_considered_and image_iff)
  have "set (percentages (temp, tv)) =
          (\<lambda>(i, v). \<lparr>width = i, percentage = js_div v tv\<rparr>) ` set (js_elements temp)"
    by (simp add: percentages_def)
  also have "\<dots> = {\<lparr>width = i, percentage = js_div v tv\<rparr> | i v.
                     i < 4294967295 \<and> map_of temp (Fin (of_nat i)) = Some v}"
    unfolding set_js_elements [OF d] by auto
  also have "\<dots> = {\<lparr>width = i, percentage = js_div (accumulated_views cs iw lo hi (Fin (of_nat i))) tv\<rparr> | i.
        i < 4294967295 \<and> (\<exists>c\<in>set cs. considered lo hi c \<and> perfectWidth iw c = Fin (of_nat i))}"
    unfolding lk by auto
  finally show ?thesis using st tv by simp
qed

lemma set_perfectWidths:
  "set (perfectWidths cs iw lo hi) =
     {\<lparr>width = i, percentage = js_div (accumulated_views cs iw lo hi (Fin (of_nat i)))
                                       (considered_views cs lo hi)\<rparr> | i.
        i < 4294967295 \<and> (\<exists>c\<in>set cs. considered lo hi c \<and> perfectWidth iw c = Fin (of_nat i))}"
  unfolding perfectWidths_def set_js_sort by (rule set_percentages)

lemma width_set_perfectWidths:
  "width ` set (perfectWidths cs iw lo hi) =
     {i. i < 4294967295 \<and>
         (\<exists>c\<in>set cs. considered lo hi c \<and> perfectWidth iw c = Fin (of_nat i))}"
  unfolding set_perfectWidths by force

lemma perfectWidth_measured:
  assumes "js_get iw (viewport c) = Some w"
  shows "perfectWidth iw c = js_ceil (js_mul (Fin (of_nat w)) (density c))"
  using assms by (simp add: perfectWidth_def)

lemma perfectWidth_unmeasured:
  assumes "js_get iw (viewport c) = None"
  shows "perfectWidth iw c = NaN"
  using assms by (simp add: perfectWidth_def js_mul_def)


section \<open>Sums over the perfect widths\<close>

lemma js_add_left_commute: "js_add a (js_add b c) = js_add b (js_add a c)"
  by (metis js_add_assoc js_add_commute)













section \<open>The order of the sorted array\<close>







section \<open>The loop over the viewport widths\<close>

lemma js_le_Fin [simp]: "js_le (Fin x) (Fin y) \<longleftrightarrow> x \<le> y"
  by (auto simp: js_le_def)

lemma js_get_Nil: "js_get [] k = None"
  by (simp add: js_get_def)

lemma viewport_loop_measures:
  assumes "\<not> (verbose args \<and> \<not> stdout_isTTY args)"
    and "\<forall>w. lo \<le> w \<and> w \<le> hi \<longrightarrow> evaluate pg (Fin (of_int w)) (selector args) \<noteq> None"
    and "- (2 ^ 53) \<le> lo" and "hi < 2 ^ 53"
  shows "\<exists>iw. viewport_loop args pg (Fin (of_int lo)) (Fin (of_int hi)) a = Some (True, iw)
           \<and> (\<forall>k. js_get iw k =
                 (if \<exists>w. lo \<le> w \<and> w \<le> hi \<and> k = Fin (of_int w)
                  then evaluate pg k (selector args) else js_get a k))"
  using assms(2,3)
proof (induction "nat (hi + 1 - lo)" arbitrary: lo a)
  case 0
  then have "hi < lo" by simp
  then show ?case
    by (subst viewport_loop.simps) auto
next
  case (Suc n)
  then have le: "lo \<le> hi" by simp
  then obtain x where x: "evaluate pg (Fin (of_int lo)) (selector args) = Some x"
    using Suc.prems(1) by blast
  have n: "n = nat (hi + 1 - (lo + 1))" using Suc.hyps(2) by simp
  have pre: "\<forall>w. lo + 1 \<le> w \<and> w \<le> hi \<longrightarrow>
               evaluate pg (Fin (of_int w)) (selector args) \<noteq> None"
    using Suc.prems(1) by simp
  have lo1: "- (2 ^ 53) \<le> lo + 1" using Suc.prems(2) by simp
  have inc: "js_increment (Fin (of_int lo)) = Fin (of_int (lo + 1))"
    using Suc.prems(2) le assms(4) by (intro js_increment_of_int) simp_all
  obtain iw where iw:
    "viewport_loop args pg (Fin (of_int (lo + 1))) (Fin (of_int hi))
        (js_set a (Fin (of_int lo)) x) = Some (True, iw)"
    "\<And>k. js_get iw k =
            (if \<exists>w. lo + 1 \<le> w \<and> w \<le> hi \<and> k = Fin (of_int w)
             then evaluate pg k (selector args)
             else js_get (js_set a (Fin (of_int lo)) x) k)"
    using Suc.hyps(1) [OF n pre lo1, of "js_set a (Fin (of_int lo)) x"] by blast
  have step: "viewport_loop args pg (Fin (of_int lo)) (Fin (of_int hi)) a = Some (True, iw)"
    using le x iw(1) assms(1) by (subst viewport_loop.simps) (auto simp: inc)
  have "js_get iw k =
          (if \<exists>w. lo \<le> w \<and> w \<le> hi \<and> k = Fin (of_int w)
           then evaluate pg k (selector args) else js_get a k)" for k
  proof (cases "k = Fin (of_int lo)")
    case True
    then have "\<not> (\<exists>w. lo + 1 \<le> w \<and> w \<le> hi \<and> k = Fin (of_int w))" by auto
    then have "js_get iw k = js_get (js_set a (Fin (of_int lo)) x) k"
      by (subst iw(2)) (rule if_not_P)
    also have "\<dots> = Some x"
      using True by (simp add: js_get_def js_set_def update_conv')
    also have "\<dots> = evaluate pg k (selector args)"
      using True x by simp
    finally show ?thesis
      using True le by auto
  next
    case False
    then have eq: "(\<exists>w. lo + 1 \<le> w \<and> w \<le> hi \<and> k = Fin (of_int w)) \<longleftrightarrow>
               (\<exists>w. lo \<le> w \<and> w \<le> hi \<and> k = Fin (of_int w))"
      by (metis add1_zle_eq order_le_less zle_add1_eq_le zless_add1_eq)
    have g: "js_get (js_set a (Fin (of_int lo)) x) k = js_get a k"
      using False by (simp add: js_get_def js_set_def update_conv')
    show ?thesis
      by (subst iw(2)) (simp only: eq g)
  qed
  with step show ?case by blast
qed

lemma step2_measures_the_whole_range:
  assumes "goto pg (url args)"
    and "\<not> (verbose args \<and> \<not> stdout_isTTY args)"
    and "\<forall>w. lo \<le> w \<and> w \<le> hi \<longrightarrow> evaluate pg (Fin (of_int w)) (selector args) \<noteq> None"
    and "- (2 ^ 53) \<le> lo" and "hi < 2 ^ 53"
  shows "\<exists>r imageWidths.
           step2 args pg (Fin (of_int lo)) (Fin (of_int hi)) = Some (r, imageWidths)
           \<and> CouldntLoadPage \<notin> set (console r)
           \<and> (\<forall>k. js_get imageWidths k =
                 (if \<exists>w. lo \<le> w \<and> w \<le> hi \<and> k = Fin (of_int w)
                  then evaluate pg k (selector args) else None))"
proof -
  obtain iw where iw:
    "viewport_loop args pg (Fin (of_int lo)) (Fin (of_int hi)) [] = Some (True, iw)"
    "\<forall>k. js_get iw k =
       (if \<exists>w. lo \<le> w \<and> w \<le> hi \<and> k = Fin (of_int w)
        then evaluate pg k (selector args) else js_get [] k)"
    using viewport_loop_measures [OF assms(2,3,4,5), of "[]"] by blast
  have "step2 args pg (Fin (of_int lo)) (Fin (of_int hi)) =
          Some (\<lparr>console = [],
                 files = write_if (variationsfile args) (Variations (js_elements iw))\<rparr>, iw)"
    using assms(1) iw(1) by (simp add: step2_def)
  moreover have "CouldntLoadPage \<notin>
      set (console \<lparr>console = [],
                     files = write_if (variationsfile args) (Variations (js_elements iw))\<rparr>)"
    by simp
  ultimately show ?thesis
    using iw(2) unfolding js_get_Nil by blast
qed

section \<open>The run after the contexts are loaded\<close>

lemma perfectWidthsTemp_skip:
  assumes "\<not> considered lo hi s"
  shows "perfectWidthsTemp (xs @ s # ys) iw lo hi = perfectWidthsTemp (xs @ ys) iw lo hi"
proof -
  obtain temp tv where st: "foldl (count_views iw lo hi) ([], Fin 0) xs = (temp, tv)"
    by (cases "foldl (count_views iw lo hi) ([], Fin 0) xs")
  have "count_views iw lo hi (temp, tv) s = (temp, tv)"
    using assms by (simp add: count_views_eq)
  then show ?thesis
    by (simp add: perfectWidthsTemp_def st)
qed

lemma main_after_step1:
  assumes "contexts csvparse contextsCsv = Some cs"
    and "contextMinViewport cs = Inr cmin" and "contextMaxViewport cs = Inr cmax"
  shows "main args csvparse contextsCsv pg =
     (case step2 args pg (minViewport args cmin) (maxViewport args cmax) of
        None \<Rightarrow> None
      | Some (r, imageWidths) \<Rightarrow>
          Some (Inr \<lparr>console = console r @
                       [Dir (perfectWidths cs imageWidths (minViewport args cmin) (maxViewport args cmax))],
                     files = files r @
                       write_if (destfile args) (SrcsetWidths (url args) (selector args) [])\<rparr>))"
  using assms by (simp add: main_def srcset_def Let_def split: option.split prod.split)

lemma contextMinViewport_Nil: "contextMinViewport [] = Inl TypeError"
  by (simp add: contextMinViewport_def)

lemma viewport_loop_next:
  "js_le w maxV \<Longrightarrow> evaluate pg w (selector args) = Some x \<Longrightarrow>
   \<not> (verbose args \<and> \<not> stdout_isTTY args) \<Longrightarrow>
   viewport_loop args pg w maxV iw = viewport_loop args pg (js_increment w) maxV (js_set iw w x)"
  by (subst viewport_loop.simps) auto

lemma viewport_loop_no_terminal:
  "js_le w maxV \<Longrightarrow> evaluate pg w (selector args) = Some x \<Longrightarrow>
   verbose args \<Longrightarrow> \<not> stdout_isTTY args \<Longrightarrow>
   viewport_loop args pg w maxV iw = Some (False, js_set iw w x)"
  by (subst viewport_loop.simps) simp

lemma viewport_loop_rejected:
  "js_le w maxV \<Longrightarrow> evaluate pg w (selector args) = None \<Longrightarrow>
   viewport_loop args pg w maxV iw = Some (False, iw)"
  by (subst viewport_loop.simps) simp

lemma viewport_loop_end:
  "\<not> js_le w maxV \<Longrightarrow> viewport_loop args pg w maxV iw = Some (True, iw)"
  by (subst viewport_loop.simps) simp

lemma width_321: "js_increment (Fin 320) = Fin 321"
  using js_increment_of_int [of 320] by simp

lemma width_322: "js_increment (Fin 321) = Fin 322"
  using js_increment_of_int [of 321] by simp

lemma two_widths_measured:
  "\<not> (verbose args \<and> \<not> stdout_isTTY args) \<Longrightarrow>
   viewport_loop args \<lparr>goto = (\<lambda>u. True), evaluate = (\<lambda>w s. Some 100)\<rparr> (Fin 320) (Fin 321) []
     = Some (True, [(Fin 320, 100), (Fin 321, 100)])"
  by (simp add: viewport_loop_next viewport_loop_end width_321 width_322 js_set_def)

lemma one_width_measured:
  "\<not> (verbose args \<and> \<not> stdout_isTTY args) \<Longrightarrow>
   viewport_loop args \<lparr>goto = (\<lambda>u. True), evaluate = (\<lambda>w s. Some 100)\<rparr> (Fin 320) (Fin 320) []
     = Some (True, [(Fin 320, 100)])"
  by (simp add: viewport_loop_next viewport_loop_end width_321 js_set_def)

lemma lower_case_letters:
  "map (char_of :: nat \<Rightarrow> char) [97..<123] = ''abcdefghijklmnopqrstuvwxyz''"
  by code_simp

lemma upper_case_letters:
  "map (char_of :: nat \<Rightarrow> char) [65..<91] = ''ABCDEFGHIJKLMNOPQRSTUVWXYZ''"
  by code_simp

lemma is_letter_iff:
  "is_letter c \<longleftrightarrow> c \<in> set ''abcdefghijklmnopqrstuvwxyzABCDEFGHIJKLMNOPQRSTUVWXYZ''"
proof
  assume "is_letter c"
  then have "(of_char c :: nat) \<in> {97..<123} \<union> {65..<91}"
    unfolding is_letter_def by auto
  then have "(of_char c :: nat) \<in> set [97..<123] \<union> set [65..<91]"
    by (simp only: set_upt)
  then have "char_of (of_char c :: nat) \<in> set (map char_of [97..<123]) \<union> set (map char_of [65..<91])"
    by (metis image_Un image_eqI set_map)
  then have "c \<in> set ''abcdefghijklmnopqrstuvwxyz'' \<union> set ''ABCDEFGHIJKLMNOPQRSTUVWXYZ''"
    unfolding lower_case_letters upper_case_letters by (simp only: char_of_char)
  then show "c \<in> set ''abcdefghijklmnopqrstuvwxyzABCDEFGHIJKLMNOPQRSTUVWXYZ''"
    by (simp only: set_append [symmetric] append.simps)
next
  assume "c \<in> set ''abcdefghijklmnopqrstuvwxyzABCDEFGHIJKLMNOPQRSTUVWXYZ''"
  then show "is_letter c"
    by (auto simp: is_letter_def)
qed

section \<open>The selection of the widths\<close>

text \<open>
  Claim C1. The selection step should return, for the buckets (100, 0.5), (200, 0.3),
  (400, 0.2) and n = 2, the widths 200 and 400. The script returns no width at all
  for these buckets, as for any others: the step is not written.
\<close>

theorem srcset_of_scenario_is_empty:
  "srcset [\<lparr>width = 100, percentage = Fin (1 / 2)\<rparr>,
           \<lparr>width = 200, percentage = Fin (3 / 10)\<rparr>,
           \<lparr>width = 400, percentage = Fin (1 / 5)\<rparr>] (Fin 2) = []
   \<and> srcset [\<lparr>width = 100, percentage = Fin (1 / 2)\<rparr>,
             \<lparr>width = 200, percentage = Fin (3 / 10)\<rparr>,
             \<lparr>width = 400, percentage = Fin (1 / 5)\<rparr>] (Fin 2) \<noteq> [200, 400]"
  by (simp add: srcset_def)

section \<open>The perfect widths\<close>







text \<open>
  Claim C7. The claim is that every sample of the considered range has the ideal width
  \<open>\<lceil>renderedWidth * density\<rceil>\<close> and adds its views to the bucket of that width. In the
  run below the second context is in the considered range; its viewport is measured,
  at the width 100, and with its density of 42949673 its perfect width is 4294967300,
  which is no index of a JavaScript array. No bucket has that width: the context has
  none, and its 3 views count only in \<^verbatim>\<open>totalViews\<close>.
\<close>

theorem bucket_of_every_context_counterexample:
  "main example_args (\<lambda>text. Some [(''320'', ''1'', ''1''), (''321'', ''42949673'', ''3'')])
     (''320,1,1'' @ [CHR 0x0A] @ ''321,42949673,3'')
     \<lparr>goto = (\<lambda>u. True), evaluate = (\<lambda>w s. Some 100)\<rparr>
   = Some (Inr \<lparr>console = [Dir [\<lparr>width = 100, percentage = Fin (1 / 4)\<rparr>]],
                 files = [(''srcset-widths.txt'',
                           SrcsetWidths ''https://example.com/'' ''img'' [])]\<rparr>)
   \<and> considered (Fin 320) (Fin 321)
         \<lparr>viewport = Fin 321, density = Fin 42949673, views = Fin 3\<rparr>
   \<and> perfectWidth [(Fin 320, 100), (Fin 321, 100)]
         \<lparr>viewport = Fin 321, density = Fin 42949673, views = Fin 3\<rparr> = Fin 4294967300"
proof -
  let ?csv = "''320,1,1'' @ [CHR 0x0A] @ ''321,42949673,3''"
  let ?parse = "\<lambda>text :: string. Some [(''320'', ''1'', ''1''), (''321'', ''42949673'', ''3'')]"
  let ?s = "\<lparr>viewport = Fin 321, density = Fin 42949673, views = Fin 3\<rparr>"
  let ?cs = "[\<lparr>viewport = Fin 320, density = Fin 1, views = Fin 1\<rparr>, ?s]"
  let ?pg = "\<lparr>goto = (\<lambda>u. True), evaluate = (\<lambda>w s. Some 100)\<rparr>"
  let ?iw = "[(Fin 320, 100), (Fin 321, 100)] :: nat js_array"
  have h1: "contexts ?parse ?csv = Some ?cs" by code_simp
  have h2: "contextMinViewport ?cs = Inr (Fin 320)" by code_simp
  have h3: "contextMaxViewport ?cs = Inr (Fin 321)" by code_simp
  have lo: "minViewport example_args (Fin 320) = Fin 320" by code_simp
  have hi: "maxViewport example_args (Fin 321) = Fin 321" by code_simp
  have s2: "step2 example_args ?pg (Fin 320) (Fin 321)
            = Some (\<lparr>console = [], files = []\<rparr>, ?iw)"
    by (simp add: step2_def two_widths_measured example_args_def write_if_def)
  have p: "perfectWidths ?cs ?iw (Fin 320) (Fin 321)
           = [\<lparr>width = 100, percentage = Fin (1 / 4)\<rparr>]"
    by code_simp
  have m: "main example_args ?parse ?csv ?pg
     = Some (Inr \<lparr>console = [Dir [\<lparr>width = 100, percentage = Fin (1 / 4)\<rparr>]],
                   files = [(''srcset-widths.txt'',
                             SrcsetWidths ''https://example.com/'' ''img'' [])]\<rparr>)"
    unfolding main_after_step1 [OF h1 h2 h3] lo hi s2
    by (simp add: p example_args_def write_if_def)
  have c: "considered (Fin 320) (Fin 321) ?s"
    by (simp add: considered_def js_ge_def js_le_def)
  have w: "perfectWidth ?iw ?s = Fin 4294967300" by code_simp
  show ?thesis using m c w by blast
qed

text \<open>
  Claim C7, as amended. A considered context whose viewport was measured at width
  \<open>w\<close> has the perfect width \<^verbatim>\<open>Math.ceil(w * density)\<close>, the product being the one
  of the script, rounded to 64 bits; when that is an array index \<open>i\<close> (an integer from
  0 to \<open>2\<^sup>3\<^sup>2 - 2\<close>), \<^verbatim>\<open>perfectWidths\<close> has an entry of width \<open>i\<close>, whose percentage is
  the views of the considered contexts of that perfect width divided by the views of
  all the considered contexts. Every entry has a percentage of this form: contexts out
  of the range count neither above nor below the line. In the example the density is
  read from \<^verbatim>\<open>1.1\<close>, and the perfect width at the width 100 is 111.
\<close>

theorem bucket_of_considered_context:
  assumes "c \<in> set cs" and "considered minV maxV c"
    and "js_get imageWidths (viewport c) = Some w"
    and "array_index (js_ceil (js_mul (Fin (of_nat w)) (density c))) = Some i"
  shows "perfectWidth imageWidths c = js_ceil (js_mul (Fin (of_nat w)) (density c))
     \<and> (\<exists>b\<in>set (perfectWidths cs imageWidths minV maxV).
          width b = i
          \<and> percentage b =
              js_div (accumulated_views cs imageWidths minV maxV (Fin (of_nat i)))
                     (considered_views cs minV maxV))
     \<and> (\<forall>b\<in>set (perfectWidths cs imageWidths minV maxV).
          percentage b =
              js_div (accumulated_views cs imageWidths minV maxV (Fin (of_nat (width b))))
                     (considered_views cs minV maxV))"
proof -
  have pw: "perfectWidth imageWidths c = js_ceil (js_mul (Fin (of_nat w)) (density c))"
    using assms(3) by (rule perfectWidth_measured)
  have i: "perfectWidth imageWidths c = Fin (of_nat i)" "i < 4294967295"
    using assms(4) unfolding pw [symmetric] array_index_Some_iff by simp_all
  have "\<lparr>width = i, percentage = js_div (accumulated_views cs imageWidths minV maxV (Fin (of_nat i)))
            (considered_views cs minV maxV)\<rparr> \<in> set (perfectWidths cs imageWidths minV maxV)"
    unfolding set_perfectWidths using assms(1,2) i by auto
  then have "\<exists>b\<in>set (perfectWidths cs imageWidths minV maxV).
          width b = i
          \<and> percentage b =
              js_div (accumulated_views cs imageWidths minV maxV (Fin (of_nat i)))
                     (considered_views cs minV maxV)"
    by (rule rev_bexI) simp
  moreover have "\<forall>b\<in>set (perfectWidths cs imageWidths minV maxV).
          percentage b =
              js_div (accumulated_views cs imageWidths minV maxV (Fin (of_nat (width b))))
                     (considered_views cs minV maxV)"
    unfolding set_perfectWidths by auto
  ultimately show ?thesis using pw by blast
qed

theorem bucket_of_considered_context_witness:
  "perfectWidth [(Fin 320, 100), (Fin 321, 100)]
       \<lparr>viewport = Fin 320, density = parseFloat ''1.1'', views = Fin 1\<rparr> = Fin 111
   \<and> (\<exists>b\<in>set (perfectWidths
                  [\<lparr>viewport = Fin 320, density = parseFloat ''1.1'', views = Fin 1\<rparr>,
                   \<lparr>viewport = Fin 321, density = Fin 2, views = Fin 3\<rparr>,
                   \<lparr>viewport = Fin 5000, density = Fin 2, views = Fin 3\<rparr>]
                  [(Fin 320, 100), (Fin 321, 100)] (Fin 320) (Fin 321)).
        width b = 111 \<and> percentage b = Fin (1 / 4))"
proof -
  let ?c = "\<lparr>viewport = Fin 320, density = parseFloat ''1.1'', views = Fin 1\<rparr>"
  let ?cs = "[?c, \<lparr>viewport = Fin 321, density = Fin 2, views = Fin 3\<rparr>,
                   \<lparr>viewport = Fin 5000, density = Fin 2, views = Fin 3\<rparr>]"
  let ?iw = "[(Fin 320, 100), (Fin 321, 100)] :: nat js_array"
  have h1: "?c \<in> set ?cs" by simp
  have h2: "considered (Fin 320) (Fin 321) ?c" by (simp add: considered_def js_ge_def js_le_def)
  have h3: "js_get ?iw (viewport ?c) = Some 100" by (simp add: js_get_def)
  have c: "js_ceil (js_mul (Fin (of_nat 100)) (density ?c)) = Fin 111" by code_simp
  have h4: "array_index (js_ceil (js_mul (Fin (of_nat 100)) (density ?c))) = Some 111"
    unfolding c by (simp add: array_index_def)
  have a: "accumulated_views ?cs ?iw (Fin 320) (Fin 321) (Fin (of_nat 111)) = Fin 1" by code_simp
  have t: "considered_views ?cs (Fin 320) (Fin 321) = Fin 4" by code_simp
  have q: "js_div (Fin 1) (Fin 4) = Fin (1 / 4)" by (simp add: js_div_def)
  note th = bucket_of_considered_context [OF h1 h2 h3 h4]
  have p1: "perfectWidth ?iw ?c = Fin 111"
    using th [THEN conjunct1] unfolding c .
  have p2: "\<exists>b\<in>set (perfectWidths ?cs ?iw (Fin 320) (Fin 321)).
        width b = 111 \<and> percentage b = Fin (1 / 4)"
    using th [THEN conjunct2, THEN conjunct1] unfolding a t q .
  show ?thesis
    using p1 p2 by (rule conjI)
qed

text \<open>
  Claim C9. The claim is that no bucket has zero accumulated views. A context with
  0 views still creates the entry of its perfect width, which comes out with the
  percentage 0.
\<close>

theorem zero_views_bucket_counterexample:
  "perfectWidths [\<lparr>viewport = Fin 320, density = Fin 1, views = Fin 0\<rparr>,
                  \<lparr>viewport = Fin 321, density = Fin 1, views = Fin 5\<rparr>]
                 [(Fin 320, 100), (Fin 321, 200)] (Fin 320) (Fin 321)
     = [\<lparr>width = 200, percentage = Fin 1\<rparr>, \<lparr>width = 100, percentage = Fin 0\<rparr>]
   \<and> accumulated_views [\<lparr>viewport = Fin 320, density = Fin 1, views = Fin 0\<rparr>,
                        \<lparr>viewport = Fin 321, density = Fin 1, views = Fin 5\<rparr>]
                       [(Fin 320, 100), (Fin 321, 200)] (Fin 320) (Fin 321) (Fin 100) = Fin 0"
  by code_simp

text \<open>
  Claim C9, as amended. The widths of the buckets are exactly the perfect widths of
  the considered contexts that are array indices: a width that no considered context
  has is left out, whatever the views of the contexts that have it.
\<close>

theorem widths_of_buckets:
  "width ` set (perfectWidths cs imageWidths minV maxV) =
     {i. \<exists>c\<in>set cs. considered minV maxV c \<and> array_index (perfectWidth imageWidths c) = Some i}"
  unfolding set_perfectWidths by (force simp: array_index_Some_iff)

section \<open>The measured widths\<close>

text \<open>
  Claim C8. The claim is that step 2 measures and records a width at every integer
  viewport width of the range. The loop does so, for widths below \<open>2\<^sup>5\<^sup>3\<close>, when the
  page loads, every measurement succeeds and the progress line can be cleared
  (\<open>step2_measures_the_whole_range\<close> above). With \<^verbatim>\<open>--verbose\<close> and a standard output
  that is not a terminal, it does not: in the run below the page loads and the image
  is measured at every width, but the loop is rejected after the first width is
  stored, the error is printed as a page that could not be loaded, and
  \<^verbatim>\<open>imageWidths\<close> holds the width 320 alone. The same run on a terminal records both
  widths.
\<close>

theorem verbose_without_terminal_stops_the_loop:
  "step2 (example_args\<lparr>verbose := True, stdout_isTTY := False\<rparr>)
     \<lparr>goto = (\<lambda>u. True), evaluate = (\<lambda>w s. Some 100)\<rparr> (Fin 320) (Fin 321)
     = Some (\<lparr>console = [CouldntLoadPage], files = []\<rparr>, [(Fin 320, 100)])
   \<and> step2 (example_args\<lparr>verbose := True, stdout_isTTY := True\<rparr>)
       \<lparr>goto = (\<lambda>u. True), evaluate = (\<lambda>w s. Some 100)\<rparr> (Fin 320) (Fin 321)
     = Some (\<lparr>console = [], files = []\<rparr>, [(Fin 320, 100), (Fin 321, 100)])"
proof -
  let ?pg = "\<lparr>goto = (\<lambda>u. True), evaluate = (\<lambda>w s. Some 100)\<rparr>"
  have "viewport_loop (example_args\<lparr>verbose := True, stdout_isTTY := False\<rparr>) ?pg
          (Fin 320) (Fin 321) [] = Some (False, [(Fin 320, 100)])"
    by (simp add: viewport_loop_no_terminal js_set_def)
  then have a: "step2 (example_args\<lparr>verbose := True, stdout_isTTY := False\<rparr>) ?pg
                  (Fin 320) (Fin 321)
                = Some (\<lparr>console = [CouldntLoadPage], files = []\<rparr>, [(Fin 320, 100)])"
    by (simp add: step2_def)
  have "viewport_loop (example_args\<lparr>verbose := True, stdout_isTTY := True\<rparr>) ?pg
          (Fin 320) (Fin 321) [] = Some (True, [(Fin 320, 100), (Fin 321, 100)])"
    by (rule two_widths_measured) simp
  then have b: "step2 (example_args\<lparr>verbose := True, stdout_isTTY := True\<rparr>) ?pg
                  (Fin 320) (Fin 321)
                = Some (\<lparr>console = [], files = []\<rparr>, [(Fin 320, 100), (Fin 321, 100)])"
    by (simp add: step2_def example_args_def write_if_def js_elements_def)
  show ?thesis using a b by (rule conjI)
qed

section \<open>Failures\<close>

text \<open>
  Claim C2. The claim is that a run whose profiling fails stops with a fatal error and
  writes no destination file. The script catches the rejection, prints it and goes on
  to step 3: here the page does not load, and the destination file is written all the
  same, with no widths.
\<close>

theorem failed_profiling_counterexample:
  "main example_args (\<lambda>text. Some [(''320'', ''1'', ''10''), (''321'', ''2'', ''30'')])
     (''320,1,10'' @ [CHR 0x0A] @ ''321,2,30'')
     \<lparr>goto = (\<lambda>u. False), evaluate = (\<lambda>w s. Some 100)\<rparr>
   = Some (Inr \<lparr>console = [CouldntLoadPage, Dir []],
                 files = [(''srcset-widths.txt'', SrcsetWidths ''https://example.com/'' ''img'' [])]\<rparr>)"
proof -
  let ?csv = "''320,1,10'' @ [CHR 0x0A] @ ''321,2,30''"
  let ?parse = "\<lambda>text :: string. Some [(''320'', ''1'', ''10''), (''321'', ''2'', ''30'')]"
  let ?cs = "[\<lparr>viewport = Fin 320, density = Fin 1, views = Fin 10\<rparr>,
              \<lparr>viewport = Fin 321, density = Fin 2, views = Fin 30\<rparr>]"
  let ?pg = "\<lparr>goto = (\<lambda>u. False), evaluate = (\<lambda>w s. Some 100)\<rparr>"
  have h1: "contexts ?parse ?csv = Some ?cs" by code_simp
  have h2: "contextMinViewport ?cs = Inr (Fin 320)" by code_simp
  have h3: "contextMaxViewport ?cs = Inr (Fin 321)" by code_simp
  have lo: "minViewport example_args (Fin 320) = Fin 320" by code_simp
  have hi: "maxViewport example_args (Fin 321) = Fin 321" by code_simp
  have s2: "step2 example_args ?pg (Fin 320) (Fin 321)
            = Some (\<lparr>console = [CouldntLoadPage], files = []\<rparr>, [])"
    by (simp add: step2_def)
  have p: "perfectWidths ?cs [] (Fin 320) (Fin 321) = []"
    by code_simp
  show ?thesis
    unfolding main_after_step1 [OF h1 h2 h3] lo hi s2
    by (simp add: p example_args_def write_if_def)
qed

text \<open>
  Claim C2, as amended. When the contexts are loaded and the page does not load, or
  the loop is rejected at some width (no element matches the selector), the run
  reaches its end. It prints the error, then the perfect widths that step 3 computes
  from the widths measured before the rejection (none when the page did not load);
  and the files it writes are exactly the destination file, when one is asked for:
  the variations file is not written.
\<close>

theorem failed_profiling_is_printed_and_the_run_goes_on:
  assumes "contexts csvparse contextsCsv = Some cs"
    and "contextMinViewport cs = Inr cmin" and "contextMaxViewport cs = Inr cmax"
    and "if goto pg (url args)
         then viewport_loop args pg (minViewport args cmin) (maxViewport args cmax) []
                = Some (False, imageWidths)
         else imageWidths = []"
  shows "main args csvparse contextsCsv pg =
           Some (Inr \<lparr>console =
                         [CouldntLoadPage,
                          Dir (perfectWidths cs imageWidths
                                 (minViewport args cmin) (maxViewport args cmax))],
                       files = write_if (destfile args)
                                 (SrcsetWidths (url args) (selector args) [])\<rparr>)"
proof -
  have "step2 args pg (minViewport args cmin) (maxViewport args cmax) =
          Some (\<lparr>console = [CouldntLoadPage], files = []\<rparr>, imageWidths)"
  proof (cases "goto pg (url args)")
    case False
    with assms(4) show ?thesis by (simp add: step2_def)
  next
    case True
    with assms(4) show ?thesis by (simp add: step2_def)
  qed
  then show ?thesis
    by (simp add: main_after_step1 [OF assms(1,2,3)])
qed

theorem failed_profiling_is_printed_and_the_run_goes_on_witness:
  "main example_args (\<lambda>text. Some [(''320'', ''1'', ''10''), (''321'', ''2'', ''30'')])
     (''320,1,10'' @ [CHR 0x0A] @ ''321,2,30'')
     \<lparr>goto = (\<lambda>u. True), evaluate = (\<lambda>w s. if w = Fin 320 then Some 100 else None)\<rparr>
   = Some (Inr \<lparr>console = [CouldntLoadPage, Dir [\<lparr>width = 100, percentage = Fin (1 / 4)\<rparr>]],
                 files = [(''srcset-widths.txt'',
                           SrcsetWidths ''https://example.com/'' ''img'' [])]\<rparr>)"
proof -
  let ?csv = "''320,1,10'' @ [CHR 0x0A] @ ''321,2,30''"
  let ?parse = "\<lambda>text :: string. Some [(''320'', ''1'', ''10''), (''321'', ''2'', ''30'')]"
  let ?cs = "[\<lparr>viewport = Fin 320, density = Fin 1, views = Fin 10\<rparr>,
              \<lparr>viewport = Fin 321, density = Fin 2, views = Fin 30\<rparr>]"
  let ?pg = "\<lparr>goto = (\<lambda>u. True), evaluate = (\<lambda>w s. if w = Fin 320 then Some 100 else None)\<rparr>"
  have h1: "contexts ?parse ?csv = Some ?cs" by code_simp
  have h2: "contextMinViewport ?cs = Inr (Fin 320)" by code_simp
  have h3: "contextMaxViewport ?cs = Inr (Fin 321)" by code_simp
  have lo: "minViewport example_args (Fin 320) = Fin 320" by code_simp
  have hi: "maxViewport example_args (Fin 321) = Fin 321" by code_simp
  have v: "\<not> (verbose example_args \<and> \<not> stdout_isTTY example_args)"
    by (simp add: example_args_def)
  have "viewport_loop example_args ?pg (Fin 320) (Fin 321) [] = Some (False, [(Fin 320, 100)])"
    using v by (simp add: viewport_loop_next viewport_loop_rejected width_321 js_set_def)
  then have h4: "if goto ?pg (url example_args)
         then viewport_loop example_args ?pg (minViewport example_args (Fin 320))
                (maxViewport example_args (Fin 321)) [] = Some (False, [(Fin 320, 100)])
         else [(Fin 320, 100)] = []"
    unfolding lo hi by simp
  have p: "perfectWidths ?cs [(Fin 320, 100)] (Fin 320) (Fin 321)
           = [\<lparr>width = 100, percentage = Fin (1 / 4)\<rparr>]"
    by code_simp
  have w: "write_if (destfile example_args)
             (SrcsetWidths (url example_args) (selector example_args) [])
           = [(''srcset-widths.txt'', SrcsetWidths ''https://example.com/'' ''img'' [])]"
    by code_simp
  show ?thesis
    using failed_profiling_is_printed_and_the_run_goes_on [OF h1 h2 h3 h4]
    unfolding lo hi p w .
qed

text \<open>
  Claim C4. The claim is that a context whose viewport is outside the measured widths
  makes the histogram fail. In the run below the image is measured at the width 320
  and the measurement at 321 is rejected, which is caught: the second context is in
  the range and its viewport was not measured. The run reaches its end, the context
  has no bucket, and its 3 views stay in the total that the first bucket is divided
  by.
\<close>

theorem unmeasured_context_counterexample:
  "main example_args (\<lambda>text. Some [(''320'', ''1'', ''1''), (''321'', ''1'', ''3'')])
     (''320,1,1'' @ [CHR 0x0A] @ ''321,1,3'')
     \<lparr>goto = (\<lambda>u. True), evaluate = (\<lambda>w s. if w = Fin 320 then Some 100 else None)\<rparr>
   = Some (Inr \<lparr>console = [CouldntLoadPage, Dir [\<lparr>width = 100, percentage = Fin (1 / 4)\<rparr>]],
                 files = [(''srcset-widths.txt'',
                           SrcsetWidths ''https://example.com/'' ''img'' [])]\<rparr>)"
proof -
  let ?csv = "''320,1,1'' @ [CHR 0x0A] @ ''321,1,3''"
  let ?parse = "\<lambda>text :: string. Some [(''320'', ''1'', ''1''), (''321'', ''1'', ''3'')]"
  let ?cs = "[\<lparr>viewport = Fin 320, density = Fin 1, views = Fin 1\<rparr>,
              \<lparr>viewport = Fin 321, density = Fin 1, views = Fin 3\<rparr>]"
  let ?pg = "\<lparr>goto = (\<lambda>u. True), evaluate = (\<lambda>w s. if w = Fin 320 then Some 100 else None)\<rparr>"
  have h1: "contexts ?parse ?csv = Some ?cs" by code_simp
  have h2: "contextMinViewport ?cs = Inr (Fin 320)" by code_simp
  have h3: "contextMaxViewport ?cs = Inr (Fin 321)" by code_simp
  have lo: "minViewport example_args (Fin 320) = Fin 320" by code_simp
  have hi: "maxViewport example_args (Fin 321) = Fin 321" by code_simp
  have v: "\<not> (verbose example_args \<and> \<not> stdout_isTTY example_args)"
    by (simp add: example_args_def)
  have "viewport_loop example_args ?pg (Fin 320) (Fin 321) [] = Some (False, [(Fin 320, 100)])"
    using v by (simp add: viewport_loop_next viewport_loop_rejected width_321 js_set_def)
  then have s2: "step2 example_args ?pg (Fin 320) (Fin 321)
            = Some (\<lparr>console = [CouldntLoadPage], files = []\<rparr>, [(Fin 320, 100)])"
    by (simp add: step2_def)
  have p: "perfectWidths ?cs [(Fin 320, 100)] (Fin 320) (Fin 321)
           = [\<lparr>width = 100, percentage = Fin (1 / 4)\<rparr>]"
    by code_simp
  show ?thesis
    unfolding main_after_step1 [OF h1 h2 h3] lo hi s2
    by (simp add: p example_args_def write_if_def)
qed

text \<open>
  Claim C4, as amended. A context whose viewport was not measured never makes the
  histogram fail. Its perfect width is NaN, so it adds no bucket: the widths of the
  buckets are those of the dataset without it, and the views accumulated in each
  bucket too. When it is in the considered range its views are added to the total
  that every bucket is divided by; when it is out of the range they are not.
\<close>

theorem unmeasured_context_has_no_bucket:
  assumes "js_get imageWidths (viewport s) = None"
  shows "perfectWidth imageWidths s = NaN
     \<and> width ` set (perfectWidths (xs @ s # ys) imageWidths minV maxV)
         = width ` set (perfectWidths (xs @ ys) imageWidths minV maxV)
     \<and> (\<forall>b\<in>set (perfectWidths (xs @ s # ys) imageWidths minV maxV).
          percentage b =
            js_div (accumulated_views (xs @ ys) imageWidths minV maxV (Fin (of_nat (width b))))
                   (considered_views (xs @ s # ys) minV maxV))
     \<and> considered_views (xs @ s # ys) minV maxV =
         js_add (considered_views (xs @ ys) minV maxV)
                (if considered minV maxV s then views s else Fin 0)"
proof -
  have nan: "perfectWidth imageWidths s = NaN"
    using assms by (rule perfectWidth_unmeasured)
  have same: "(\<exists>c\<in>set (xs @ s # ys). considered minV maxV c \<and> perfectWidth imageWidths c = Fin q)
          \<longleftrightarrow> (\<exists>c\<in>set (xs @ ys). considered minV maxV c \<and> perfectWidth imageWidths c = Fin q)"
    for q
    using nan by auto
  have acc: "accumulated_views (xs @ s # ys) imageWidths minV maxV (Fin q)
          = accumulated_views (xs @ ys) imageWidths minV maxV (Fin q)" for q
    using nan by (simp add: accumulated_views_def)
  have w: "width ` set (perfectWidths (xs @ s # ys) imageWidths minV maxV)
         = width ` set (perfectWidths (xs @ ys) imageWidths minV maxV)"
    unfolding width_set_perfectWidths same ..
  have p: "\<forall>b\<in>set (perfectWidths (xs @ s # ys) imageWidths minV maxV).
          percentage b =
            js_div (accumulated_views (xs @ ys) imageWidths minV maxV (Fin (of_nat (width b))))
                   (considered_views (xs @ s # ys) minV maxV)"
    unfolding set_perfectWidths acc by auto
  have t: "considered_views (xs @ s # ys) minV maxV =
         js_add (considered_views (xs @ ys) minV maxV)
                (if considered minV maxV s then views s else Fin 0)"
    by (simp add: considered_views_def js_add_assoc js_add_left_commute js_add_commute)
  show ?thesis using nan w p t by blast
qed

theorem unmeasured_context_has_no_bucket_witness:
  "perfectWidth [(Fin 320, 100)] \<lparr>viewport = Fin 321, density = Fin 1, views = Fin 3\<rparr> = NaN
   \<and> width ` set (perfectWidths [\<lparr>viewport = Fin 320, density = Fin 1, views = Fin 1\<rparr>,
                                  \<lparr>viewport = Fin 321, density = Fin 1, views = Fin 3\<rparr>]
                                 [(Fin 320, 100)] (Fin 320) (Fin 321))
       = width ` set (perfectWidths [\<lparr>viewport = Fin 320, density = Fin 1, views = Fin 1\<rparr>]
                                    [(Fin 320, 100)] (Fin 320) (Fin 321))
   \<and> considered_views [\<lparr>viewport = Fin 320, density = Fin 1, views = Fin 1\<rparr>,
                        \<lparr>viewport = Fin 321, density = Fin 1, views = Fin 3\<rparr>]
                       (Fin 320) (Fin 321) = Fin 4
   \<and> perfectWidths [\<lparr>viewport = Fin 320, density = Fin 1, views = Fin 1\<rparr>,
                    \<lparr>viewport = Fin 321, density = Fin 1, views = Fin 3\<rparr>]
                   [(Fin 320, 100)] (Fin 320) (Fin 321)
       = [\<lparr>width = 100, percentage = Fin (1 / 4)\<rparr>]
   \<and> perfectWidths [\<lparr>viewport = Fin 320, density = Fin 1, views = Fin 1\<rparr>]
                   [(Fin 320, 100)] (Fin 320) (Fin 321)
       = [\<lparr>width = 100, percentage = Fin 1\<rparr>]"
proof -
  let ?s = "\<lparr>viewport = Fin 321, density = Fin 1, views = Fin 3\<rparr>"
  let ?c = "\<lparr>viewport = Fin 320, density = Fin 1, views = Fin 1\<rparr>"
  let ?iw = "[(Fin 320, 100)] :: nat js_array"
  have h: "js_get ?iw (viewport ?s) = None" by (simp add: js_get_def)
  note th = unmeasured_context_has_no_bucket
    [where imageWidths = ?iw and s = ?s and xs = "[?c]" and ys = "[]"
       and minV = "Fin 320" and maxV = "Fin 321", OF h]
  have a: "perfectWidth ?iw ?s = NaN"
    using th [THEN conjunct1] .
  have b: "width ` set (perfectWidths [?c, ?s] ?iw (Fin 320) (Fin 321))
         = width ` set (perfectWidths [?c] ?iw (Fin 320) (Fin 321))"
    using th [THEN conjunct2, THEN conjunct1] by simp
  have c1: "considered_views [?c] (Fin 320) (Fin 321) = Fin 1" by code_simp
  have c2: "considered (Fin 320) (Fin 321) ?s" by (simp add: considered_def js_ge_def js_le_def)
  have c: "considered_views [?c, ?s] (Fin 320) (Fin 321) = Fin 4"
    using th [THEN conjunct2, THEN conjunct2, THEN conjunct2] c1 c2 by simp
  have d: "perfectWidths [?c, ?s] ?iw (Fin 320) (Fin 321)
             = [\<lparr>width = 100, percentage = Fin (1 / 4)\<rparr>]"
    by code_simp
  have e: "perfectWidths [?c] ?iw (Fin 320) (Fin 321) = [\<lparr>width = 100, percentage = Fin 1\<rparr>]"
    by code_simp
  show ?thesis using a b c d e by blast
qed

text \<open>
  Claim C5. The claim is that a row that does not parse as a non-negative integer, a
  positive real and a non-negative integer is refused. Here the second row has an
  empty viewport, a negative density and negative views: it is loaded, with NaN for
  the viewport, and the run reaches its end.
\<close>

theorem unparsed_fields_counterexample:
  "contexts (\<lambda>text. Some [(''320'', ''1.5'', ''10''), ([], ''-1'', ''-3'')])
     (''320,1.5,10'' @ [CHR 0x0A] @ '',-1,-3'')
   = Some [\<lparr>viewport = Fin 320, density = Fin (3 / 2), views = Fin 10\<rparr>,
           \<lparr>viewport = NaN, density = Fin (- 1), views = Fin (- 3)\<rparr>]
   \<and> main example_args (\<lambda>text. Some [(''320'', ''1.5'', ''10''), ([], ''-1'', ''-3'')])
       (''320,1.5,10'' @ [CHR 0x0A] @ '',-1,-3'')
       \<lparr>goto = (\<lambda>u. True), evaluate = (\<lambda>w s. Some 100)\<rparr>
     = Some (Inr \<lparr>console = [Dir [\<lparr>width = 150, percentage = Fin 1\<rparr>]],
                   files = [(''srcset-widths.txt'', SrcsetWidths ''https://example.com/'' ''img'' [])]\<rparr>)"
proof -
  let ?csv = "''320,1.5,10'' @ [CHR 0x0A] @ '',-1,-3''"
  let ?parse = "\<lambda>text :: string. Some [(''320'', ''1.5'', ''10''), ([], ''-1'', ''-3'')]"
  let ?cs = "[\<lparr>viewport = Fin 320, density = Fin (3 / 2), views = Fin 10\<rparr>,
              \<lparr>viewport = NaN, density = Fin (- 1), views = Fin (- 3)\<rparr>]"
  let ?pg = "\<lparr>goto = (\<lambda>u. True), evaluate = (\<lambda>w s. Some 100)\<rparr>"
  have h1: "contexts ?parse ?csv = Some ?cs" by code_simp
  have h2: "contextMinViewport ?cs = Inr (Fin 320)" by code_simp
  have h3: "contextMaxViewport ?cs = Inr (Fin 320)" by code_simp
  have lo: "minViewport example_args (Fin 320) = Fin 320" by code_simp
  have hi: "maxViewport example_args (Fin 320) = Fin 320" by code_simp
  have s2: "step2 example_args ?pg (Fin 320) (Fin 320)
            = Some (\<lparr>console = [], files = []\<rparr>, [(Fin 320, 100)])"
    by (simp add: step2_def one_width_measured example_args_def write_if_def)
  have p: "perfectWidths ?cs [(Fin 320, 100)] (Fin 320) (Fin 320)
           = [\<lparr>width = 150, percentage = Fin 1\<rparr>]"
    by code_simp
  have "main example_args ?parse ?csv ?pg
     = Some (Inr \<lparr>console = [Dir [\<lparr>width = 150, percentage = Fin 1\<rparr>]],
                   files = [(''srcset-widths.txt'', SrcsetWidths ''https://example.com/'' ''img'' [])]\<rparr>)"
    unfolding main_after_step1 [OF h1 h2 h3] lo hi s2
    by (simp add: p example_args_def write_if_def)
  with h1 show ?thesis by (rule conjI)
qed

text \<open>
  Claim C5, as amended. Every record that the CSV parser returns, from the first one
  kept, becomes a context, whatever its fields hold; and when no record is kept, the
  run throws a TypeError (at \<^verbatim>\<open>contexts[0].viewport\<close>) before the browser is
  launched.
\<close>

theorem contexts_are_loaded_unchecked:
  assumes "csvparse contextsCsv = Some records"
  shows "(\<exists>cs. contexts csvparse contextsCsv = Some cs
            \<and> length cs = length records - (from_record contextsCsv - 1))
       \<and> (length records \<le> from_record contextsCsv - 1 \<longrightarrow>
            main args csvparse contextsCsv pg = Some (Inl TypeError))"
proof -
  have c: "contexts csvparse contextsCsv =
             Some (map cast_record (drop (from_record contextsCsv - 1) records))"
    using assms by (simp add: contexts_def)
  have "main args csvparse contextsCsv pg = Some (Inl TypeError)"
    if "length records \<le> from_record contextsCsv - 1"
    using that c by (simp add: main_def contextMinViewport_Nil)
  with c show ?thesis by simp
qed

theorem contexts_are_loaded_unchecked_witness:
  "(\<exists>cs. contexts (\<lambda>text. Some [(''viewport'', ''density'', ''views'')]) ''viewport,density,views''
           = Some cs \<and> length cs = 0)
   \<and> main example_args (\<lambda>text. Some [(''viewport'', ''density'', ''views'')])
       ''viewport,density,views'' \<lparr>goto = (\<lambda>u. True), evaluate = (\<lambda>w s. Some 100)\<rparr>
     = Some (Inl TypeError)"
proof -
  let ?parse = "\<lambda>text :: string. Some [(''viewport'', ''density'', ''views'')]"
  have h: "?parse ''viewport,density,views'' = Some [(''viewport'', ''density'', ''views'')]"
    by simp
  have f: "from_record ''viewport,density,views'' = 2" by code_simp
  note th = contexts_are_loaded_unchecked
    [where csvparse = ?parse and contextsCsv = "''viewport,density,views''"
       and args = example_args
       and pg = "\<lparr>goto = (\<lambda>u. True), evaluate = (\<lambda>w s. Some 100)\<rparr>",
     OF h, unfolded f]
  have a: "\<exists>cs. contexts ?parse ''viewport,density,views'' = Some cs \<and> length cs = 0"
    using th [THEN conjunct1] by simp
  have b: "main example_args ?parse ''viewport,density,views''
             \<lparr>goto = (\<lambda>u. True), evaluate = (\<lambda>w s. Some 100)\<rparr> = Some (Inl TypeError)"
    using th [THEN conjunct2] by simp
  show ?thesis using a b by (rule conjI)
qed

section \<open>The header of the contexts file\<close>

text \<open>
  Claim C10. The file counts as having a header exactly when some character of the
  whole text is an ASCII letter; the first record is then dropped, whatever it holds,
  and otherwise every record is cast. In the example the letters are in the second
  row, and the first row, which is data, is lost.
\<close>

theorem header_is_any_letter:
  "csvHasHeader contextsCsv =
     (\<exists>c\<in>set contextsCsv. c \<in> set ''abcdefghijklmnopqrstuvwxyzABCDEFGHIJKLMNOPQRSTUVWXYZ'')
   \<and> contexts csvparse contextsCsv =
       map_option
         (\<lambda>records. map cast_record
            (if \<exists>c\<in>set contextsCsv. c \<in> set ''abcdefghijklmnopqrstuvwxyzABCDEFGHIJKLMNOPQRSTUVWXYZ''
             then tl records else records))
         (csvparse contextsCsv)"
proof -
  have h: "csvHasHeader contextsCsv =
     (\<exists>c\<in>set contextsCsv. c \<in> set ''abcdefghijklmnopqrstuvwxyzABCDEFGHIJKLMNOPQRSTUVWXYZ'')"
    unfolding csvHasHeader_def list_ex_iff is_letter_iff ..
  have "drop (from_record contextsCsv - 1) records =
          (if csvHasHeader contextsCsv then tl records else records)" for records :: "(string \<times> string \<times> string) list"
    by (simp add: from_record_def drop_Suc)
  then have "contexts csvparse contextsCsv =
       map_option
         (\<lambda>records. map cast_record (if csvHasHeader contextsCsv then tl records else records))
         (csvparse contextsCsv)"
    by (simp add: contexts_def)
  then show ?thesis
    unfolding h by (rule conjI [OF refl])
qed

theorem header_is_any_letter_witness:
  "contexts (\<lambda>text. Some [(''320'', ''1'', ''10''), (''480'', ''2'', ''5px'')])
     (''320,1,10'' @ [CHR 0x0A] @ ''480,2,5px'')
   = Some [\<lparr>viewport = Fin 480, density = Fin 2, views = Fin 5\<rparr>]"
proof -
  have l: "\<exists>c\<in>set (''320,1,10'' @ [CHR 0x0A] @ ''480,2,5px'').
             c \<in> set ''abcdefghijklmnopqrstuvwxyzABCDEFGHIJKLMNOPQRSTUVWXYZ''"
    by (rule bexI [of _ "CHR ''p''"]) simp_all
  have c: "cast_record (''480'', ''2'', ''5px'') = \<lparr>viewport = Fin 480, density = Fin 2, views = Fin 5\<rparr>"
    by code_simp
  show ?thesis
    using header_is_any_letter
      [of "''320,1,10'' @ [CHR 0x0A] @ ''480,2,5px''"
          "\<lambda>text. Some [(''320'', ''1'', ''10''), (''480'', ''2'', ''5px'')]", THEN conjunct2]
    by (simp only: l if_True c option.map list.map list.sel)
qed

end
